theory Spec2Isabelle
  imports Main "HOL-Library.Word"
begin

unbundle bit_operations_syntax

section \<open>The state aggregator: shared data model\<close>

text \<open>
  The development embeds the orchestration layer of the temporal state engine
  (package \<^verbatim>\<open>state\<close>: \<^verbatim>\<open>Aggregator\<close> and \<^verbatim>\<open>AggregatorRoTx\<close>).  The components it
  drives (domains, histories, inverted indices, the segment codec, the file system) are
  declared outside the embedded sources; what they return is an input of the functions
  below, and what they are asked to do is recorded, call by call.
\<close>

type_synonym u64 = "64 word"
type_synonym u32 = "32 word"

text \<open>A Go byte slice: \<open>None\<close> is the \<^verbatim>\<open>nil\<close> slice, \<open>Some []\<close> an empty one.\<close>

type_synonym bytes = "8 word list"
type_synonym slice = "bytes option"

text \<open>
  Go errors.  \<open>Errorf\<close> is a freshly formatted error, \<open>Wrapf\<close> a formatted error that
  wraps its cause (\<^verbatim>\<open>%w\<close>), \<open>Ext\<close> an error produced by a callee outside the aggregator,
  and \<open>Panic\<close> (with a message) and \<open>PanicErr\<close> (\<^verbatim>\<open>panic(err)\<close>) stand for a Go panic
  unwinding out of the function.
\<close>

datatype error =
    Errorf string
  | Wrapf string error
  | Ext string
  | Panic string
  | PanicErr error

fun is_panic :: "error \<Rightarrow> bool" where
  "is_panic (Panic m) = True"
| "is_panic (PanicErr e) = True"
| "is_panic e = False"

text \<open>\<^verbatim>\<open>kv.Domain\<close> and the positions of the standalone inverted indices, in array order.\<close>

datatype Domain = AccountsDomain | StorageDomain | CodeDomain | CommitmentDomain

datatype InvertedIdxPos = LogAddrIdxPos | LogTopicIdxPos | TracesFromIdxPos | TracesToIdxPos

definition DomainLen :: "Domain list" where
  "DomainLen = [AccountsDomain, StorageDomain, CodeDomain, CommitmentDomain]"

definition StandaloneIdxLen :: "InvertedIdxPos list" where
  "StandaloneIdxLen = [LogAddrIdxPos, LogTopicIdxPos, TracesFromIdxPos, TracesToIdxPos]"

text \<open>
  \<^verbatim>\<open>kv.InvertedIdx\<close> is a name; the eight names the aggregator recognises are constructors
  and every other name is \<open>OtherIdx\<close>.
\<close>

datatype InvertedIdx =
    AccountsHistoryIdx | StorageHistoryIdx | CodeHistoryIdx | CommitmentHistoryIdx
  | LogTopicIdx | LogAddrIdx | TracesFromIdx | TracesToIdx
  | OtherIdx string

fun InvertedIdx_String :: "InvertedIdx \<Rightarrow> string" where
  "InvertedIdx_String AccountsHistoryIdx = ''AccountsHistoryIdx''"
| "InvertedIdx_String StorageHistoryIdx = ''StorageHistoryIdx''"
| "InvertedIdx_String CodeHistoryIdx = ''CodeHistoryIdx''"
| "InvertedIdx_String CommitmentHistoryIdx = ''CommitmentHistoryIdx''"
| "InvertedIdx_String LogTopicIdx = ''LogTopicIdx''"
| "InvertedIdx_String LogAddrIdx = ''LogAddrIdx''"
| "InvertedIdx_String TracesFromIdx = ''TracesFromIdx''"
| "InvertedIdx_String TracesToIdx = ''TracesToIdx''"
| "InvertedIdx_String (OtherIdx s) = s"

text \<open>
  The read handles of the components.  A handle is identified by a number (its address);
  a \<^verbatim>\<open>DomainRoTx\<close> carries the handle of its history (\<^verbatim>\<open>ht\<close>) and the end of the last
  visible file it pinned (\<^verbatim>\<open>files.EndTxNum()\<close>).  The \<open>filenameBase\<close> fields stand for the
  base name reached through the handle's back pointer (\<^verbatim>\<open>dt.d.filenameBase\<close>,
  \<^verbatim>\<open>iit.ii.filenameBase\<close>, \<^verbatim>\<open>ap.filenameBase\<close>).
\<close>

record HistoryRoTx =
  h_handle :: nat

record DomainRoTx =
  d_handle :: nat
  d_filenameBase :: string
  ht :: HistoryRoTx
  files_EndTxNum :: u64

record InvertedIndexRoTx =
  ii_handle :: nat
  ii_filenameBase :: string

record AppendableRoTx =
  ap_handle :: nat
  ap_filenameBase :: string

text \<open>
  \<^verbatim>\<open>AggregatorRoTx\<close>.  The fields carry the receiver's name as a prefix.  \<open>ac_a\<close> is the back
  pointer to the aggregator (\<open>None\<close> once the view is closed); \<open>ac_d\<close> is an array of
  pointers, each possibly \<^verbatim>\<open>nil\<close>, indexed by \<^verbatim>\<open>kv.Domain\<close>; \<open>ac_iis\<close> is indexed by
  position; \<open>ac_appendable\<close> is listed in array order.
\<close>

record AggregatorRoTx =
  ac_a :: "nat option"
  ac_d :: "Domain \<Rightarrow> DomainRoTx option"
  ac_iis :: "InvertedIdxPos \<Rightarrow> InvertedIndexRoTx"
  ac_appendable :: "AppendableRoTx list"
  ac_id :: u64
  ac_leakID :: u64

section \<open>Reads through the view\<close>

text \<open>
  \<^verbatim>\<open>ac.d[name]\<close> followed by a method call: a \<^verbatim>\<open>nil\<close> entry makes the call panic.
\<close>

definition deref :: "'x option \<Rightarrow> error + 'x" where
  "deref p = (case p of None \<Rightarrow> Inl (Panic ''nil pointer dereference'') | Some x \<Rightarrow> Inr x)"

text \<open>
  \<^verbatim>\<open>IndexRange\<close>.  \<open>hIdxRange\<close> is \<^verbatim>\<open>HistoryRoTx.IdxRange\<close> and \<open>iiIdxRange\<close> is
  \<^verbatim>\<open>InvertedIndexRoTx.IdxRange\<close>, both applied to the handle and the query
  \<open>q = (k, fromTs, toTs, asc, limit, tx)\<close>; they return the iterator or an error.
\<close>

definition IndexRange ::
  "(HistoryRoTx \<Rightarrow> 'q \<Rightarrow> error + 'it) \<Rightarrow> (InvertedIndexRoTx \<Rightarrow> 'q \<Rightarrow> error + 'it) \<Rightarrow>
   AggregatorRoTx \<Rightarrow> InvertedIdx \<Rightarrow> 'q \<Rightarrow> error + 'it" where
  "IndexRange hIdxRange iiIdxRange ac name q =
    (case name of
       AccountsHistoryIdx \<Rightarrow>
         (case deref (ac_d ac AccountsDomain) of Inl p \<Rightarrow> Inl p | Inr dt \<Rightarrow> hIdxRange (ht dt) q)
     | StorageHistoryIdx \<Rightarrow>
         (case deref (ac_d ac StorageDomain) of Inl p \<Rightarrow> Inl p | Inr dt \<Rightarrow> hIdxRange (ht dt) q)
     | CodeHistoryIdx \<Rightarrow>
         (case deref (ac_d ac CodeDomain) of Inl p \<Rightarrow> Inl p | Inr dt \<Rightarrow> hIdxRange (ht dt) q)
     | CommitmentHistoryIdx \<Rightarrow>
         (case deref (ac_d ac StorageDomain) of Inl p \<Rightarrow> Inl p | Inr dt \<Rightarrow> hIdxRange (ht dt) q)
     | LogTopicIdx \<Rightarrow> iiIdxRange (ac_iis ac LogTopicIdxPos) q
     | LogAddrIdx \<Rightarrow> iiIdxRange (ac_iis ac LogAddrIdxPos) q
     | TracesFromIdx \<Rightarrow> iiIdxRange (ac_iis ac TracesFromIdxPos) q
     | TracesToIdx \<Rightarrow> iiIdxRange (ac_iis ac TracesToIdxPos) q
     | OtherIdx s \<Rightarrow> Inl (Errorf (''unexpected history name: '' @ InvertedIdx_String name)))"

text \<open>
  \<^verbatim>\<open>DomainGetAsOf\<close> returns the triple \<open>(v, ok, err)\<close>.  \<open>GetAsOf\<close> is
  \<^verbatim>\<open>DomainRoTx.GetAsOf\<close>, returning the value slice and the error (\<open>None\<close> for \<^verbatim>\<open>nil\<close>).
\<close>

definition DomainGetAsOf ::
  "(DomainRoTx \<Rightarrow> bytes \<Rightarrow> u64 \<Rightarrow> 'tx \<Rightarrow> slice \<times> error option) \<Rightarrow>
   AggregatorRoTx \<Rightarrow> 'tx \<Rightarrow> Domain \<Rightarrow> bytes \<Rightarrow> u64 \<Rightarrow> error + (slice \<times> bool \<times> error option)" where
  "DomainGetAsOf GetAsOf ac tx name key ts =
    (case deref (ac_d ac name) of
       Inl p \<Rightarrow> Inl p
     | Inr dt \<Rightarrow> (case GetAsOf dt key ts tx of (v, err) \<Rightarrow> Inr (v, v \<noteq> None, err)))"

section \<open>The integrity check installed by \<^verbatim>\<open>NewAggregator\<close>\<close>

text \<open>\<^verbatim>\<open>datadir.Dirs\<close>, as far as the aggregator reads it.\<close>

record Dirs =
  SnapDomain :: string
  Snap :: string
  Tmp :: string

text \<open>\<^verbatim>\<open>%d\<close> of an unsigned integer: its decimal digits, no sign, no padding.\<close>

definition digit :: "nat \<Rightarrow> char" where
  "digit n = ''0123456789'' ! n"

fun fmt_d :: "nat \<Rightarrow> string" where
  "fmt_d n = (if n < 10 then [digit n] else fmt_d (n div 10) @ [digit (n mod 10)])"

declare fmt_d.simps [simp del]

text \<open>\<^verbatim>\<open>%s\<close> of a \<^verbatim>\<open>kv.Domain\<close>: the base name of the domain's files.\<close>

fun Domain_String :: "Domain \<Rightarrow> string" where
  "Domain_String AccountsDomain = ''accounts''"
| "Domain_String StorageDomain = ''storage''"
| "Domain_String CodeDomain = ''code''"
| "Domain_String CommitmentDomain = ''commitment''"

text \<open>
  \<^verbatim>\<open>filepath.Join\<close> of a directory and a file name; the directories of \<^verbatim>\<open>datadir.Dirs\<close>
  are clean paths and the names have no separator, so the join is the concatenation.
\<close>

definition filepath_Join :: "string \<Rightarrow> string \<Rightarrow> string" where
  "filepath_Join dir name = dir @ ''/'' @ name"

text \<open>
  The two closures of \<^verbatim>\<open>NewAggregator\<close>.  \<open>FileExist\<close> is \<^verbatim>\<open>dir.FileExist\<close>, returning
  \<open>(exists, err)\<close>; its error makes \<^verbatim>\<open>commitmentFileMustExist\<close> panic.  The subtraction
  \<^verbatim>\<open>toStep-fromStep\<close> is unsigned 64-bit.
\<close>

definition commitmentFileMustExist ::
  "(string \<Rightarrow> bool \<times> error option) \<Rightarrow> Dirs \<Rightarrow> u64 \<Rightarrow> u64 \<Rightarrow> error + bool" where
  "commitmentFileMustExist FileExist dirs fromStep toStep =
    (let fPath = filepath_Join (SnapDomain dirs)
           (''v1-'' @ Domain_String CommitmentDomain @ ''.'' @ fmt_d (unat fromStep) @ ''-'' @
            fmt_d (unat toStep) @ ''.kv'')
     in case FileExist fPath of
          (exists, Some err) \<Rightarrow> Inl (PanicErr err)
        | (exists, None) \<Rightarrow> Inr exists)"

definition integrityCheck ::
  "(string \<Rightarrow> bool \<times> error option) \<Rightarrow> Dirs \<Rightarrow> Domain \<Rightarrow> u64 \<Rightarrow> u64 \<Rightarrow> error + bool" where
  "integrityCheck FileExist dirs name fromStep toStep =
    (if name = AccountsDomain \<or> name = StorageDomain \<or> name = CodeDomain then
       (if toStep - fromStep > 1 then Inr True
        else commitmentFileMustExist FileExist dirs fromStep toStep)
     else Inr True)"

section \<open>Pruning in small batches\<close>

text \<open>
  \<^verbatim>\<open>time.Duration\<close> counts nanoseconds.
\<close>

definition time_Second :: int where "time_Second = 1000000000"
definition time_Minute :: int where "time_Minute = 60 * time_Second"
definition time_Hour :: int where "time_Hour = 60 * time_Minute"

text \<open>
  The prologue shared by \<^verbatim>\<open>PruneSmallBatches\<close> and \<^verbatim>\<open>PruneSmallBatchesDb\<close>: the two modes
  and the starting limit.  \<^verbatim>\<open>pruneLimit\<close> is a \<^verbatim>\<open>uint64\<close>.
\<close>

definition furiousPrune :: "int \<Rightarrow> bool" where
  "furiousPrune timeout = (timeout > 5 * time_Hour)"

definition aggressivePrune :: "int \<Rightarrow> bool" where
  "aggressivePrune timeout = (\<not> furiousPrune timeout \<and> timeout \<ge> 1 * time_Minute)"

definition pruneLimit0 :: "int \<Rightarrow> u64" where
  "pruneLimit0 timeout = (if furiousPrune timeout then 1000000 else 1000)"

definition logPeriod :: int where
  "logPeriod = 30 * time_Second"

text \<open>
  The adjustment after an iteration that took \<open>took\<close>: two independent \<^verbatim>\<open>if\<close> statements
  under \<^verbatim>\<open>if aggressivePrune\<close>, in unsigned 64-bit arithmetic.
\<close>

definition adjustPruneLimit :: "int \<Rightarrow> int \<Rightarrow> u64 \<Rightarrow> u64" where
  "adjustPruneLimit timeout took pruneLimit =
    (if aggressivePrune timeout then
       (let l1 = (if took < 2 * time_Second then pruneLimit * 10 else pruneLimit)
        in if took > logPeriod then l1 div 10 else l1)
     else pruneLimit)"

text \<open>
  What one turn of the loop observes from outside: whether the write transaction of
  \<^verbatim>\<open>db.Update\<close> could begin and commit (\<^verbatim>\<open>PruneSmallBatchesDb\<close> only), what \<^verbatim>\<open>ac.Prune\<close>
  returned (an error, a \<^verbatim>\<open>nil\<close> statistics object, or statistics with the value of
  \<^verbatim>\<open>PrunedNothing()\<close>), how long the iteration took, and which case the closing
  \<^verbatim>\<open>select\<close> took.
\<close>

datatype PruneRet = PruneFailed error | PruneNil | PruneStat bool

datatype Select = SelTimeout | SelLog | SelCtxDone error | SelDefault

record iteration =
  it_begin :: "error option"
  it_prune :: PruneRet
  it_took :: int
  it_commit :: "error option"
  it_select :: Select

text \<open>
  One turn of each loop: it returns \<open>(haveMore, err)\<close> or goes on with the next limit.
\<close>

datatype loop_step = Return bool "error option" | Continue u64

definition PruneSmallBatches_iter :: "int \<Rightarrow> u64 \<Rightarrow> iteration \<Rightarrow> loop_step" where
  "PruneSmallBatches_iter timeout pruneLimit it =
    (case it_prune it of
       PruneFailed err \<Rightarrow> Return False (Some err)
     | PruneNil \<Rightarrow> Return False None
     | PruneStat prunedNothing \<Rightarrow>
         if prunedNothing then Return False None
         else
           (let pruneLimit' = adjustPruneLimit timeout (it_took it) pruneLimit in
            case it_select it of
              SelTimeout \<Rightarrow> Return True None
            | SelLog \<Rightarrow> Continue pruneLimit'
            | SelCtxDone err \<Rightarrow> Return False (Some err)
            | SelDefault \<Rightarrow> Continue pruneLimit'))"

text \<open>
  In \<^verbatim>\<open>PruneSmallBatchesDb\<close> the body runs inside \<^verbatim>\<open>db.Update\<close>; a \<^verbatim>\<open>nil\<close> statistics object
  sets \<^verbatim>\<open>goExit\<close> and skips the adjustment; the logging \<^verbatim>\<open>select\<close> inside the transaction
  has no effect on the control flow and is left out.
\<close>

definition PruneSmallBatchesDb_iter :: "int \<Rightarrow> u64 \<Rightarrow> iteration \<Rightarrow> loop_step" where
  "PruneSmallBatchesDb_iter timeout pruneLimit it =
    (case it_begin it of
       Some err \<Rightarrow> Return False (Some err)
     | None \<Rightarrow>
        (case it_prune it of
           PruneFailed err \<Rightarrow> Return False (Some err)
         | stat \<Rightarrow>
            (let goExit = (stat = PruneNil);
                 pruneLimit' = (if goExit then pruneLimit
                                else adjustPruneLimit timeout (it_took it) pruneLimit)
             in case it_commit it of
                  Some err \<Rightarrow> Return False (Some err)
                | None \<Rightarrow>
                   (case it_select it of
                      SelTimeout \<Rightarrow> Return True None
                    | SelCtxDone err \<Rightarrow> Return False (Some err)
                    | _ \<Rightarrow> if goExit then Return False None else Continue pruneLimit'))))"

text \<open>
  The loop over the observed iterations.  It yields the value of \<^verbatim>\<open>pruneLimit\<close> at each
  iteration, in order, and the returned pair, or \<open>None\<close> while the loop is still running
  when the observations end.
\<close>

fun prune_loop ::
  "(u64 \<Rightarrow> iteration \<Rightarrow> loop_step) \<Rightarrow> u64 \<Rightarrow> iteration list \<Rightarrow>
   u64 list \<times> (bool \<times> error option) option" where
  "prune_loop iter pruneLimit [] = ([], None)"
| "prune_loop iter pruneLimit (it # its) =
    (case iter pruneLimit it of
       Return haveMore err \<Rightarrow> ([pruneLimit], Some (haveMore, err))
     | Continue pruneLimit' \<Rightarrow>
        (case prune_loop iter pruneLimit' its of (ls, r) \<Rightarrow> (pruneLimit # ls, r)))"

definition PruneSmallBatches ::
  "int \<Rightarrow> iteration list \<Rightarrow> u64 list \<times> (bool \<times> error option) option" where
  "PruneSmallBatches timeout its =
     prune_loop (PruneSmallBatches_iter timeout) (pruneLimit0 timeout) its"

definition PruneSmallBatchesDb ::
  "int \<Rightarrow> iteration list \<Rightarrow> u64 list \<times> (bool \<times> error option) option" where
  "PruneSmallBatchesDb timeout its =
     prune_loop (PruneSmallBatchesDb_iter timeout) (pruneLimit0 timeout) its"

section \<open>Closing a view\<close>

text \<open>
  What \<^verbatim>\<open>Close\<close> does outside the view itself is recorded in order: the removal of the
  view's entry from the aggregator's leak detector and the \<^verbatim>\<open>Close\<close> of each component
  handle.
\<close>

datatype close_event =
    LeakDel u64
  | DomainClose nat
  | IndexClose nat
  | AppendableClose nat

text \<open>
  \<^verbatim>\<open>Close\<close> on the receiver \<open>acp\<close> (\<open>None\<close> is the \<^verbatim>\<open>nil\<close> receiver).  It returns the view as the
  call leaves it and the extended record of events.  The three loops follow the arrays in
  order; only the domain loop tests its entries for \<^verbatim>\<open>nil\<close>, the index and appendable
  entries are the handles \<^verbatim>\<open>BeginFilesRo\<close> put there.
\<close>

definition Close_domains :: "AggregatorRoTx \<Rightarrow> close_event list" where
  "Close_domains ac =
     concat (map (\<lambda>n. case ac_d ac n of None \<Rightarrow> [] | Some dt \<Rightarrow> [DomainClose (d_handle dt)])
       DomainLen)"

definition Close_iis :: "AggregatorRoTx \<Rightarrow> close_event list" where
  "Close_iis ac = map (\<lambda>p. IndexClose (ii_handle (ac_iis ac p))) StandaloneIdxLen"

definition Close_appendable :: "AggregatorRoTx \<Rightarrow> close_event list" where
  "Close_appendable ac = map (\<lambda>ap. AppendableClose (ap_handle ap)) (ac_appendable ac)"

definition Close ::
  "AggregatorRoTx option \<Rightarrow> close_event list \<Rightarrow> AggregatorRoTx option \<times> close_event list" where
  "Close acp evs =
    (case acp of
       None \<Rightarrow> (None, evs)
     | Some ac \<Rightarrow>
        (case ac_a ac of
           None \<Rightarrow> (Some ac, evs)
         | Some agg \<Rightarrow>
            (Some (ac \<lparr> ac_a := None \<rparr>),
             evs @ [LeakDel (ac_leakID ac)] @ Close_domains ac @ Close_iis ac @
               Close_appendable ac)))"

section \<open>Pruning the hot store\<close>

text \<open>
  The aggregator, as far as pruning reads it: the step size and the atomic
  \<^verbatim>\<open>visibleFilesMinimaxTxNum\<close>.
\<close>

record Aggregator =
  aggregationStep :: u64
  visibleFilesMinimaxTxNum :: u64

text \<open>
  \<^verbatim>\<open>minimaxTxNumInDomainFiles\<close>: Go's \<^verbatim>\<open>min\<close> of the four ends, in the order Accounts, Code,
  Storage, Commitment.
\<close>

definition minimaxTxNumInDomainFiles :: "AggregatorRoTx \<Rightarrow> error + u64" where
  "minimaxTxNumInDomainFiles ac =
    (case (ac_d ac AccountsDomain, ac_d ac CodeDomain, ac_d ac StorageDomain,
           ac_d ac CommitmentDomain) of
       (Some da, Some dc, Some ds, Some dm) \<Rightarrow>
         Inr (min (min (min (files_EndTxNum da) (files_EndTxNum dc)) (files_EndTxNum ds))
                (files_EndTxNum dm))
     | _ \<Rightarrow> Inl (Panic ''nil pointer dereference''))"

text \<open>
  \<^verbatim>\<open>recalcVisibleFilesMinimaxTxNum\<close> stores the minimax of a fresh view; \<open>aggTx\<close> is the view
  \<^verbatim>\<open>a.BeginFilesRo()\<close> returned.
\<close>

definition recalcVisibleFilesMinimaxTxNum :: "Aggregator \<Rightarrow> AggregatorRoTx \<Rightarrow> error + Aggregator" where
  "recalcVisibleFilesMinimaxTxNum agg aggTx =
    (case minimaxTxNumInDomainFiles aggTx of
       Inl p \<Rightarrow> Inl p
     | Inr m \<Rightarrow> Inr (agg \<lparr> visibleFilesMinimaxTxNum := m \<rparr>))"

text \<open>
  The component methods \<^verbatim>\<open>Prune\<close> uses, over a hot-store transaction of type \<open>'tx\<close>: the
  \<^verbatim>\<open>dbg.NoPrune()\<close> switch, the two \<^verbatim>\<open>CanPrune\<close> tests, and the three \<^verbatim>\<open>Prune\<close> methods, each
  returning its statistics pointer, its error and the transaction as it leaves it.
\<close>

record ('tx, 'ds, 'is, 'as) prune_env =
  NoPrune :: bool
  CanPruneUntil :: "DomainRoTx \<Rightarrow> 'tx \<Rightarrow> u64 \<Rightarrow> bool"
  iiCanPrune :: "InvertedIndexRoTx \<Rightarrow> 'tx \<Rightarrow> bool"
  dPrune :: "DomainRoTx \<Rightarrow> 'tx \<Rightarrow> u64 \<Rightarrow> u64 \<Rightarrow> u64 \<Rightarrow> u64 \<Rightarrow> ('ds option \<times> error option) \<times> 'tx"
  iiPrune :: "InvertedIndexRoTx \<Rightarrow> 'tx \<Rightarrow> u64 \<Rightarrow> u64 \<Rightarrow> u64 \<Rightarrow> ('is option \<times> error option) \<times> 'tx"
  apPrune :: "AppendableRoTx \<Rightarrow> 'tx \<Rightarrow> u64 \<Rightarrow> u64 \<Rightarrow> u64 \<Rightarrow> ('as option \<times> error option) \<times> 'tx"

text \<open>
  Every call of a component \<^verbatim>\<open>Prune\<close> is recorded with the handle and the arguments
  \<open>step\<close> (domains only), \<open>txFrom\<close>, \<open>txTo\<close> and \<open>limit\<close>.
\<close>

datatype PruneCall =
    DomainPrune nat u64 u64 u64 u64
  | IndexPrune nat u64 u64 u64
  | AppendablePrune nat u64 u64 u64

fun call_txFrom :: "PruneCall \<Rightarrow> u64" where
  "call_txFrom (DomainPrune h step txFrom txTo limit) = txFrom"
| "call_txFrom (IndexPrune h txFrom txTo limit) = txFrom"
| "call_txFrom (AppendablePrune h txFrom txTo limit) = txFrom"

fun call_txTo :: "PruneCall \<Rightarrow> u64" where
  "call_txTo (DomainPrune h step txFrom txTo limit) = txTo"
| "call_txTo (IndexPrune h txFrom txTo limit) = txTo"
| "call_txTo (AppendablePrune h txFrom txTo limit) = txTo"

fun call_limit :: "PruneCall \<Rightarrow> u64" where
  "call_limit (DomainPrune h step txFrom txTo limit) = limit"
| "call_limit (IndexPrune h txFrom txTo limit) = limit"
| "call_limit (AppendablePrune h txFrom txTo limit) = limit"

record ('ds, 'is, 'as) AggregatorPruneStat =
  Domains :: "string \<rightharpoonup> 'ds option"
  Indices :: "string \<rightharpoonup> 'is option"
  Appendable :: "string \<rightharpoonup> 'as option"

definition newAggregatorPruneStat :: "('ds, 'is, 'as) AggregatorPruneStat" where
  "newAggregatorPruneStat = \<lparr> Domains = Map.empty, Indices = Map.empty, Appendable = Map.empty \<rparr>"

text \<open>\<^verbatim>\<open>CanPrune\<close>: the first component that can be pruned answers.\<close>

fun CanPrune_domains ::
  "('tx, 'ds, 'is, 'as) prune_env \<Rightarrow> DomainRoTx option list \<Rightarrow> 'tx \<Rightarrow> u64 \<Rightarrow> error + bool" where
  "CanPrune_domains env [] tx untilTx = Inr False"
| "CanPrune_domains env (None # ps) tx untilTx = Inl (Panic ''nil pointer dereference'')"
| "CanPrune_domains env (Some dt # ps) tx untilTx =
     (if CanPruneUntil env dt tx untilTx then Inr True else CanPrune_domains env ps tx untilTx)"

definition CanPrune ::
  "('tx, 'ds, 'is, 'as) prune_env \<Rightarrow> AggregatorRoTx \<Rightarrow> 'tx \<Rightarrow> u64 \<Rightarrow> error + bool" where
  "CanPrune env ac tx untilTx =
    (if NoPrune env then Inr False
     else case CanPrune_domains env (map (ac_d ac) DomainLen) tx untilTx of
            Inl p \<Rightarrow> Inl p
          | Inr True \<Rightarrow> Inr True
          | Inr False \<Rightarrow> Inr (\<exists>p \<in> set StandaloneIdxLen. iiCanPrune env (ac_iis ac p) tx))"

text \<open>
  The three loops of \<^verbatim>\<open>Prune\<close>.  Each returns \<open>Some\<close> of the function's result when it
  leaves the function (a returned pair, or \<open>Inl\<close> for a panic) and \<open>None\<close> when it runs to
  its end, together with what it collected, the transaction and the calls made so far.
\<close>

fun Prune_domains ::
  "('tx, 'ds, 'is, 'as) prune_env \<Rightarrow> u64 \<Rightarrow> u64 \<Rightarrow> u64 \<Rightarrow> u64 \<Rightarrow> DomainRoTx option list \<Rightarrow>
   ('ds, 'is, 'as) AggregatorPruneStat \<Rightarrow> 'tx \<Rightarrow> PruneCall list \<Rightarrow>
   (error + ('ds, 'is, 'as) AggregatorPruneStat option \<times> error option) option \<times>
   ('ds, 'is, 'as) AggregatorPruneStat \<times> 'tx \<times> PruneCall list" where
  "Prune_domains env step txFrom txTo limit [] aggStat tx calls = (None, aggStat, tx, calls)"
| "Prune_domains env step txFrom txTo limit (None # ps) aggStat tx calls =
     (Some (Inl (Panic ''nil pointer dereference'')), aggStat, tx, calls)"
| "Prune_domains env step txFrom txTo limit (Some dt # ps) aggStat tx calls =
     (case dPrune env dt tx step txFrom txTo limit of
        ((stat, err), tx') \<Rightarrow>
          (let aggStat' = aggStat \<lparr> Domains := (Domains aggStat)(d_filenameBase dt \<mapsto> stat) \<rparr>;
               calls' = calls @ [DomainPrune (d_handle dt) step txFrom txTo limit]
           in case err of
                Some e \<Rightarrow> (Some (Inr (Some aggStat', Some e)), aggStat', tx', calls')
              | None \<Rightarrow> Prune_domains env step txFrom txTo limit ps aggStat' tx' calls'))"

fun Prune_iis ::
  "('tx, 'ds, 'is, 'as) prune_env \<Rightarrow> u64 \<Rightarrow> u64 \<Rightarrow> u64 \<Rightarrow> InvertedIndexRoTx list \<Rightarrow>
   (string \<times> 'is option) list \<Rightarrow> 'tx \<Rightarrow> PruneCall list \<Rightarrow>
   (error + ('ds, 'is, 'as) AggregatorPruneStat option \<times> error option) option \<times>
   (string \<times> 'is option) list \<times> 'tx \<times> PruneCall list" where
  "Prune_iis env txFrom txTo limit [] stats tx calls = (None, stats, tx, calls)"
| "Prune_iis env txFrom txTo limit (ii # iis) stats tx calls =
     (case iiPrune env ii tx txFrom txTo limit of
        ((stat, err), tx') \<Rightarrow>
          (let calls' = calls @ [IndexPrune (ii_handle ii) txFrom txTo limit]
           in case err of
                Some e \<Rightarrow> (Some (Inr (None, Some e)), stats, tx', calls')
              | None \<Rightarrow>
                  Prune_iis env txFrom txTo limit iis (stats @ [(ii_filenameBase ii, stat)]) tx'
                    calls'))"

fun Prune_appendable ::
  "('tx, 'ds, 'is, 'as) prune_env \<Rightarrow> u64 \<Rightarrow> u64 \<Rightarrow> u64 \<Rightarrow> AppendableRoTx list \<Rightarrow>
   ('ds, 'is, 'as) AggregatorPruneStat \<Rightarrow> 'tx \<Rightarrow> PruneCall list \<Rightarrow>
   (error + ('ds, 'is, 'as) AggregatorPruneStat option \<times> error option) option \<times>
   ('ds, 'is, 'as) AggregatorPruneStat \<times> 'tx \<times> PruneCall list" where
  "Prune_appendable env txFrom txTo limit [] aggStat tx calls = (None, aggStat, tx, calls)"
| "Prune_appendable env txFrom txTo limit (ap # aps) aggStat tx calls =
     (case apPrune env ap tx txFrom txTo limit of
        ((stat, err), tx') \<Rightarrow>
          (let aggStat' = aggStat \<lparr> Appendable := (Appendable aggStat)(ap_filenameBase ap \<mapsto> stat) \<rparr>;
               calls' = calls @ [AppendablePrune (ap_handle ap) txFrom txTo limit]
           in case err of
                Some e \<Rightarrow> (Some (Inr (None, Some e)), aggStat', tx', calls')
              | None \<Rightarrow> Prune_appendable env txFrom txTo limit aps aggStat' tx' calls'))"

text \<open>
  \<^verbatim>\<open>Prune\<close>.  \<open>agg\<close> is the aggregator \<^verbatim>\<open>ac.a\<close> points to.  The result is the returned pair
  \<open>(stat, err)\<close> (or \<open>Inl\<close> for a panic: a closed view, a step size of zero, a \<^verbatim>\<open>nil\<close>
  domain handle), the transaction as the call leaves it, and the component calls made.
\<close>

definition Prune ::
  "('tx, 'ds, 'is, 'as) prune_env \<Rightarrow> AggregatorRoTx \<Rightarrow> Aggregator \<Rightarrow> 'tx \<Rightarrow> u64 \<Rightarrow>
   (error + ('ds, 'is, 'as) AggregatorPruneStat option \<times> error option) \<times> 'tx \<times> PruneCall list" where
  "Prune env ac agg tx limit0 =
    (let limit = (if limit0 = 0 then 18446744073709551615 else limit0);
         txFrom = 0
     in if ac_a ac = None then (Inl (Panic ''nil pointer dereference''), tx, [])
        else
          (let txTo = visibleFilesMinimaxTxNum agg in
           if txTo > 0 \<and> aggregationStep agg = 0 then
             (Inl (Panic ''integer divide by zero''), tx, [])
           else
             (let step = (if txTo > 0 then (txTo - 1) div aggregationStep agg else 0) in
              if txFrom = txTo then (Inr (None, None), tx, [])
              else
                (case CanPrune env ac tx txTo of
                   Inl p \<Rightarrow> (Inl p, tx, [])
                 | Inr False \<Rightarrow> (Inr (None, None), tx, [])
                 | Inr True \<Rightarrow>
                    (case Prune_domains env step txFrom txTo limit (map (ac_d ac) DomainLen)
                            newAggregatorPruneStat tx [] of
                       (Some r, aggStat, tx1, calls1) \<Rightarrow> (r, tx1, calls1)
                     | (None, aggStat, tx1, calls1) \<Rightarrow>
                        (case Prune_iis env txFrom txTo limit (map (ac_iis ac) StandaloneIdxLen)
                                [] tx1 calls1 of
                           (Some r, stats, tx2, calls2) \<Rightarrow> (r, tx2, calls2)
                         | (None, stats, tx2, calls2) \<Rightarrow>
                            (let aggStat2 = aggStat \<lparr> Indices :=
                                   fold (\<lambda>(name, stat) m. m(name \<mapsto> stat)) stats (Indices aggStat) \<rparr>
                             in case Prune_appendable env txFrom txTo limit (ac_appendable ac)
                                       aggStat2 tx2 calls2 of
                                  (Some r, aggStat3, tx3, calls3) \<Rightarrow> (r, tx3, calls3)
                                | (None, aggStat3, tx3, calls3) \<Rightarrow>
                                    (Inr (Some aggStat3, None), tx3, calls3))))))))"

section \<open>The salt of the state indices\<close>

text \<open>
  The snapshot directory as \<^verbatim>\<open>getStateIndicesSalt\<close> sees it: the regular files by path,
  and the failures of the file-system calls it makes.  \<open>FileExist_err p\<close> is the error of
  \<^verbatim>\<open>dir.FileExist\<close> on \<open>p\<close> (an error other than "does not exist"), \<open>Rename_err\<close> that of
  \<^verbatim>\<open>os.Rename\<close>, \<open>Write_err\<close> that of \<^verbatim>\<open>dir.WriteFileWithFsync\<close> and \<open>Read_err\<close> that of
  \<^verbatim>\<open>os.ReadFile\<close>.
\<close>

record salt_fs =
  files :: "string \<rightharpoonup> bytes"
  FileExist_err :: "string \<Rightarrow> error option"
  Rename_err :: "error option"
  Write_err :: "error option"
  Read_err :: "error option"

definition FileExist :: "salt_fs \<Rightarrow> string \<Rightarrow> bool \<times> error option" where
  "FileExist fs p =
    (case FileExist_err fs p of
       Some e \<Rightarrow> (False, Some e)
     | None \<Rightarrow> (files fs p \<noteq> None, None))"

definition os_Rename :: "salt_fs \<Rightarrow> string \<Rightarrow> string \<Rightarrow> error option \<times> salt_fs" where
  "os_Rename fs old new =
    (case Rename_err fs of
       Some e \<Rightarrow> (Some e, fs)
     | None \<Rightarrow>
        (case files fs old of
           None \<Rightarrow> (Some (Ext ''rename: no such file or directory''), fs)
         | Some content \<Rightarrow> (None, fs \<lparr> files := (files fs)(old := None, new \<mapsto> content) \<rparr>)))"

definition WriteFileWithFsync :: "salt_fs \<Rightarrow> string \<Rightarrow> bytes \<Rightarrow> error option \<times> salt_fs" where
  "WriteFileWithFsync fs p content =
    (case Write_err fs of
       Some e \<Rightarrow> (Some e, fs)
     | None \<Rightarrow> (None, fs \<lparr> files := (files fs)(p \<mapsto> content) \<rparr>))"

definition os_ReadFile :: "salt_fs \<Rightarrow> string \<Rightarrow> bytes \<times> error option" where
  "os_ReadFile fs p =
    (case Read_err fs of
       Some e \<Rightarrow> ([], Some e)
     | None \<Rightarrow>
        (case files fs p of
           None \<Rightarrow> ([], Some (Ext ''open: no such file or directory''))
         | Some content \<Rightarrow> (content, None)))"

text \<open>
  \<^verbatim>\<open>binary.BigEndian\<close>: \<^verbatim>\<open>PutUint32\<close> into a fresh 4-byte slice, and \<^verbatim>\<open>Uint32\<close>, which reads
  the first four bytes and panics on a shorter slice.
\<close>

definition PutUint32 :: "u32 \<Rightarrow> bytes" where
  "PutUint32 v = [ucast (drop_bit 24 v), ucast (drop_bit 16 v), ucast (drop_bit 8 v), ucast v]"

fun Uint32 :: "bytes \<Rightarrow> error + u32" where
  "Uint32 (b0 # b1 # b2 # b3 # bs) =
     Inr (push_bit 24 (ucast b0) OR push_bit 16 (ucast b1) OR push_bit 8 (ucast b2) OR ucast b3)"
| "Uint32 bs = Inl (Panic ''index out of range'')"

text \<open>
  \<^verbatim>\<open>getStateIndicesSalt\<close>.  \<open>rnd\<close> is the value \<^verbatim>\<open>rand2.Uint32()\<close> draws if it is called.  The
  result is the returned pair \<open>(salt, err)\<close>, or \<open>Inl\<close> for a panic, and the directory as the
  call leaves it.  The error of \<^verbatim>\<open>os.Rename\<close> is discarded, as in the source.
\<close>

definition getStateIndicesSalt ::
  "u32 \<Rightarrow> string \<Rightarrow> salt_fs \<Rightarrow> (error + u32 option \<times> error option) \<times> salt_fs" where
  "getStateIndicesSalt rnd baseDir fs =
    (case FileExist fs (filepath_Join baseDir ''salt.txt'') of
       (saltExists, Some err) \<Rightarrow> (Inr (None, Some err), fs)
     | (saltExists, None) \<Rightarrow>
    (case FileExist fs (filepath_Join baseDir ''salt-state.txt'') of
       (saltStateExists, Some err) \<Rightarrow> (Inr (None, Some err), fs)
     | (saltStateExists, None) \<Rightarrow>
    (let fs1 = (if saltExists \<and> \<not> saltStateExists
                then snd (os_Rename fs (filepath_Join baseDir ''salt.txt'')
                            (filepath_Join baseDir ''salt-state.txt''))
                else fs);
         fpath = filepath_Join baseDir ''salt-state.txt''
     in case FileExist fs1 fpath of
          (fexists, Some err) \<Rightarrow> (Inr (None, Some err), fs1)
        | (fexists, None) \<Rightarrow>
       (case (if \<not> fexists then WriteFileWithFsync fs1 fpath (PutUint32 rnd) else (None, fs1)) of
          (Some err, fs2) \<Rightarrow> (Inr (None, Some err), fs2)
        | (None, fs2) \<Rightarrow>
           (case os_ReadFile fs2 fpath of
              (saltBytes, Some err) \<Rightarrow> (Inr (None, Some err), fs2)
            | (saltBytes, None) \<Rightarrow>
               (case Uint32 saltBytes of
                  Inl p \<Rightarrow> (Inl p, fs2)
                | Inr saltV \<Rightarrow> (Inr (Some saltV, None), fs2)))))))"

text \<open>
  The head of \<^verbatim>\<open>NewAggregator\<close>: the salt is read first and its error returned with a \<^verbatim>\<open>nil\<close>
  aggregator.  \<open>construct\<close> stands for the rest of the constructor, which receives the
  salt.
\<close>

definition NewAggregator ::
  "(u32 \<Rightarrow> salt_fs \<Rightarrow> 'agg option \<times> error option) \<Rightarrow> u32 \<Rightarrow> Dirs \<Rightarrow> salt_fs \<Rightarrow>
   (error + 'agg option \<times> error option) \<times> salt_fs" where
  "NewAggregator construct rnd dirs fs =
    (case getStateIndicesSalt rnd (Snap dirs) fs of
       (Inl p, fs') \<Rightarrow> (Inl p, fs')
     | (Inr (salt, Some err), fs') \<Rightarrow> (Inr (None, Some err), fs')
     | (Inr (None, None), fs') \<Rightarrow> (Inl (Panic ''nil pointer dereference''), fs')
     | (Inr (Some salt, None), fs') \<Rightarrow> (Inr (construct salt fs'), fs'))"

section \<open>Squeezing the commitment files\<close>

text \<open>
  A dirty file (\<^verbatim>\<open>filesItem\<close>) as \<^verbatim>\<open>SqueezeCommitmentFiles\<close> reads it: its range, the path and
  name of its decompressor, and the words the decompressor yields, taken two at a time as
  key and value (a \<^verbatim>\<open>nil\<close> word is \<open>None\<close>).
\<close>

record filesItem =
  startTxNum :: u64
  endTxNum :: u64
  FilePath :: string
  FileName :: string
  words :: "(slice \<times> slice) list"

text \<open>
  The directory of segment files: the content of each file by path (a compressed segment
  is the list of pairs written to it) and the failures of the calls made on it:
  \<^verbatim>\<open>seg.NewCompressor\<close> and \<^verbatim>\<open>Compress\<close> by output path, \<^verbatim>\<open>AddWord\<close> by output path and number
  of words added before, \<^verbatim>\<open>os.Rename\<close>, \<^verbatim>\<open>os.Stat\<close> and \<^verbatim>\<open>os.Remove\<close> by path.
\<close>

record seg_fs =
  segs :: "string \<rightharpoonup> (slice \<times> slice) list"
  NewCompressor_err :: "string \<Rightarrow> error option"
  AddWord_err :: "string \<Rightarrow> nat \<Rightarrow> error option"
  Compress_err :: "string \<Rightarrow> error option"
  segRename_err :: "string \<Rightarrow> string \<Rightarrow> error option"
  Stat_err :: "string \<Rightarrow> error option"
  Remove_err :: "string \<Rightarrow> error option"

definition ErrNotExist :: error where
  "ErrNotExist = Ext ''file does not exist''"

definition seg_Rename :: "seg_fs \<Rightarrow> string \<Rightarrow> string \<Rightarrow> error option \<times> seg_fs" where
  "seg_Rename fs old new =
    (case segRename_err fs old new of
       Some e \<Rightarrow> (Some e, fs)
     | None \<Rightarrow>
        (case segs fs old of
           None \<Rightarrow> (Some ErrNotExist, fs)
         | Some content \<Rightarrow> (None, fs \<lparr> segs := (segs fs)(old := None, new \<mapsto> content) \<rparr>)))"

definition os_Stat :: "seg_fs \<Rightarrow> string \<Rightarrow> error option" where
  "os_Stat fs p =
    (case Stat_err fs p of
       Some e \<Rightarrow> Some e
     | None \<Rightarrow> (case segs fs p of None \<Rightarrow> Some ErrNotExist | Some content \<Rightarrow> None))"

definition os_Remove :: "seg_fs \<Rightarrow> string \<Rightarrow> error option \<times> seg_fs" where
  "os_Remove fs p =
    (case Remove_err fs p of
       Some e \<Rightarrow> (Some e, fs)
     | None \<Rightarrow>
        (case segs fs p of
           None \<Rightarrow> (Some ErrNotExist, fs)
         | Some content \<Rightarrow> (None, fs \<lparr> segs := (segs fs)(p := None) \<rparr>)))"

definition TrimSuffix :: "string \<Rightarrow> string \<Rightarrow> string" where
  "TrimSuffix s suffix =
    (if length suffix \<le> length s \<and> drop (length s - length suffix) s = suffix
     then take (length s - length suffix) s else s)"

text \<open>
  What the function takes from the commitment domain: the value transformer
  \<^verbatim>\<open>commitmentValTransformDomain(accounts, storage, af, sf)\<close>, applied to a value and a
  range; the three index paths of a step range; the sentinel key \<^verbatim>\<open>keyCommitmentState\<close>.
\<close>

record squeeze_env =
  vt :: "filesItem \<Rightarrow> filesItem \<Rightarrow> slice \<Rightarrow> u64 \<Rightarrow> u64 \<Rightarrow> error + slice"
  kvBtFilePath :: "u64 \<Rightarrow> u64 \<Rightarrow> string"
  kvAccessorFilePath :: "u64 \<Rightarrow> u64 \<Rightarrow> string"
  kvExistenceIdxFilePath :: "u64 \<Rightarrow> u64 \<Rightarrow> string"
  keyCommitmentState :: bytes

definition sqExt :: string where
  "sqExt = ''.squeezed''"

text \<open>
  The loop over the pairs of one file.  \<open>out\<close> are the pairs written so far to the
  compressor of \<open>tmp\<close>.  A pair with a \<^verbatim>\<open>nil\<close> key is skipped; the value of every other pair
  but the sentinel's goes through the transformer; key and value are then added.
\<close>

fun squeeze_words ::
  "squeeze_env \<Rightarrow> seg_fs \<Rightarrow> string \<Rightarrow> filesItem \<Rightarrow> filesItem \<Rightarrow> (slice \<times> slice) list \<Rightarrow>
   (slice \<times> slice) list \<Rightarrow> error + (slice \<times> slice) list" where
  "squeeze_words env fs tmp af sf [] out = Inr out"
| "squeeze_words env fs tmp af sf ((k, v) # kvs) out =
    (case k of
       None \<Rightarrow> squeeze_words env fs tmp af sf kvs out
     | Some kb \<Rightarrow>
        (case (if kb \<noteq> keyCommitmentState env
               then vt env af sf v (startTxNum af) (endTxNum af) else Inr v) of
           Inl err \<Rightarrow> Inl (Wrapf ''failed to transform commitment value'' err)
         | Inr v' \<Rightarrow>
            (case AddWord_err fs tmp (2 * length out) of
               Some err \<Rightarrow> Inl (Wrapf ''write key word'' err)
             | None \<Rightarrow>
                (case AddWord_err fs tmp (2 * length out + 1) of
                   Some err \<Rightarrow> Inl (Wrapf ''write value word'' err)
                 | None \<Rightarrow> squeeze_words env fs tmp af sf kvs (out @ [(k, v')])))))"

text \<open>
  The state of the outer loop: the directory, \<^verbatim>\<open>temporalFiles\<close> and \<^verbatim>\<open>obsoleteFiles\<close>.  The
  closure run for one commitment file \<open>cf\<close> with its account and storage files returns its
  error, if any, and the state.
\<close>

type_synonym squeeze_state = "seg_fs \<times> string list \<times> string list"

definition squeeze_file ::
  "squeeze_env \<Rightarrow> u64 \<Rightarrow> filesItem \<Rightarrow> filesItem \<Rightarrow> filesItem \<Rightarrow> squeeze_state \<Rightarrow>
   error option \<times> squeeze_state" where
  "squeeze_file env stepSize cf af sf st =
    (case st of (fs, temporalFiles, obsoleteFiles) \<Rightarrow>
     (let originalPath = FilePath cf;
          squeezedTmpPath = originalPath @ sqExt @ ''.tmp''
      in case NewCompressor_err fs squeezedTmpPath of
           Some err \<Rightarrow> (Some err, st)
         | None \<Rightarrow>
        (case squeeze_words env fs squeezedTmpPath af sf (words cf) [] of
           Inl err \<Rightarrow> (Some err, st)
         | Inr out \<Rightarrow>
        (case Compress_err fs squeezedTmpPath of
           Some err \<Rightarrow> (Some err, st)
         | None \<Rightarrow>
        (let fs1 = fs \<lparr> segs := (segs fs)(squeezedTmpPath \<mapsto> out) \<rparr>;
             squeezedPath = originalPath @ sqExt
         in case seg_Rename fs1 squeezedTmpPath squeezedPath of
              (Some err, fs2) \<Rightarrow> (Some err, fs2, temporalFiles, obsoleteFiles)
            | (None, fs2) \<Rightarrow>
           (let temporalFiles' = temporalFiles @ [squeezedPath] in
            case os_Stat fs2 originalPath of
              Some err \<Rightarrow> (Some err, fs2, temporalFiles', obsoleteFiles)
            | None \<Rightarrow>
           (case os_Stat fs2 squeezedPath of
              Some err \<Rightarrow> (Some err, fs2, temporalFiles', obsoleteFiles)
            | None \<Rightarrow>
              if stepSize = 0 then
                (Some (Panic ''integer divide by zero''), fs2, temporalFiles', obsoleteFiles)
              else
                (let fromStep = startTxNum af div stepSize;
                     toStep = endTxNum af div stepSize
                 in (None, fs2, temporalFiles',
                     obsoleteFiles @ [originalPath, kvBtFilePath env fromStep toStep,
                       kvAccessorFilePath env fromStep toStep,
                       kvExistenceIdxFilePath env fromStep toStep])))))))))"

text \<open>
  The loop over the commitment files.  A file without an account file and a storage file
  of the same range is passed over; the error of a file's closure ends the function,
  wrapped with the file's name (a panic unwinds as it is).
\<close>

definition same_range :: "filesItem \<Rightarrow> filesItem \<Rightarrow> bool" where
  "same_range cf f = (startTxNum f = startTxNum cf \<and> endTxNum f = endTxNum cf)"

fun squeeze_all ::
  "squeeze_env \<Rightarrow> u64 \<Rightarrow> filesItem list \<Rightarrow> filesItem list \<Rightarrow> filesItem list \<Rightarrow>
   squeeze_state \<Rightarrow> error option \<times> squeeze_state" where
  "squeeze_all env stepSize accountFiles storageFiles [] st = (None, st)"
| "squeeze_all env stepSize accountFiles storageFiles (cf # cfs) st =
    (case (find (same_range cf) accountFiles, find (same_range cf) storageFiles) of
       (Some af, Some sf) \<Rightarrow>
         (case squeeze_file env stepSize cf af sf st of
            (Some err, st') \<Rightarrow>
              (Some (if is_panic err then err
                     else Wrapf (''failed to squeeze commitment file '' @ FileName cf) err), st')
          | (None, st') \<Rightarrow> squeeze_all env stepSize accountFiles storageFiles cfs st')
     | _ \<Rightarrow> squeeze_all env stepSize accountFiles storageFiles cfs st)"

text \<open>The two closing loops: removal of the obsolete files, renaming of the squeezed ones.\<close>

fun remove_obsolete :: "seg_fs \<Rightarrow> string list \<Rightarrow> error option \<times> seg_fs" where
  "remove_obsolete fs [] = (None, fs)"
| "remove_obsolete fs (path # paths) =
    (case os_Remove fs path of
       (Some err, fs') \<Rightarrow>
         if err \<noteq> ErrNotExist then (Some err, fs') else remove_obsolete fs' paths
     | (None, fs') \<Rightarrow> remove_obsolete fs' paths)"

fun rename_temporal :: "seg_fs \<Rightarrow> string list \<Rightarrow> error option \<times> seg_fs" where
  "rename_temporal fs [] = (None, fs)"
| "rename_temporal fs (path # paths) =
    (case seg_Rename fs path (TrimSuffix path sqExt) of
       (Some err, fs') \<Rightarrow> (Some err, fs')
     | (None, fs') \<Rightarrow> rename_temporal fs' paths)"

text \<open>
  \<^verbatim>\<open>SqueezeCommitmentFiles\<close>: the returned error and the directory as the call leaves it.
  \<open>commitmentValuesTransform\<close> and \<open>stepSize\<close> are the aggregator's; the three lists are the
  dirty files of the Accounts, Storage and Commitment domains.
\<close>

definition SqueezeCommitmentFiles ::
  "squeeze_env \<Rightarrow> bool \<Rightarrow> u64 \<Rightarrow> filesItem list \<Rightarrow> filesItem list \<Rightarrow> filesItem list \<Rightarrow> seg_fs \<Rightarrow>
   error option \<times> seg_fs" where
  "SqueezeCommitmentFiles env commitmentValuesTransform stepSize accountFiles storageFiles
      commitFiles fs =
    (if \<not> commitmentValuesTransform then (None, fs)
     else
       (case squeeze_all env stepSize accountFiles storageFiles commitFiles (fs, [], []) of
          (Some err, fs1, temporalFiles, obsoleteFiles) \<Rightarrow> (Some err, fs1)
        | (None, fs1, temporalFiles, obsoleteFiles) \<Rightarrow>
           (case remove_obsolete fs1 obsoleteFiles of
              (Some err, fs2) \<Rightarrow> (Some err, fs2)
            | (None, fs2) \<Rightarrow> rename_temporal fs2 temporalFiles)))"

section \<open>Building the files of a step\<close>






























section \<open>Merging the files of a pass\<close>



record merge_cfg =
  commitmentValuesTransform :: bool
  mergeWorkers :: int
  r_domain_any :: "Domain \<Rightarrow> bool"
  r_others :: nat











text \<open>
  The invariant of the transition system when \<^verbatim>\<open>commitmentValuesTransform\<close> is set.  The
  loop has begun the iterations of the indices below \<open>begun_upto\<close> (their \<^verbatim>\<open>Add\<close> is done) and
  has started the tasks of the indices below \<open>spawned_upto\<close>.
\<close>

fun idx :: "Domain \<Rightarrow> nat" where
  "idx AccountsDomain = 0"
| "idx StorageDomain = 1"
| "idx CodeDomain = 2"
| "idx CommitmentDomain = 3"








section \<open>Claims\<close>

subsection \<open>Routing of index and domain reads\<close>

text \<open>
  Claim C9.  \<^verbatim>\<open>IndexRange\<close> called with \<^verbatim>\<open>kv.CommitmentHistoryIdx\<close> answers exactly as it
  does for \<^verbatim>\<open>kv.StorageHistoryIdx\<close>: from the history index of the Storage domain's handle.
  Each of the other recognised names is answered by its own component (the history of the
  Accounts, Storage or Code domain, or the standalone index at the name's position), and a
  name that is not recognised yields the error \<^verbatim>\<open>unexpected history name: <name>\<close>, which is
  a returned error and not a panic.
\<close>

theorem IndexRange_routes:
  "IndexRange h i ac CommitmentHistoryIdx q = IndexRange h i ac StorageHistoryIdx q
   \<and> (\<forall>dt. ac_d ac StorageDomain = Some dt \<longrightarrow>
          IndexRange h i ac CommitmentHistoryIdx q = h (ht dt) q
        \<and> IndexRange h i ac StorageHistoryIdx q = h (ht dt) q)
   \<and> (\<forall>dt. ac_d ac AccountsDomain = Some dt \<longrightarrow>
          IndexRange h i ac AccountsHistoryIdx q = h (ht dt) q)
   \<and> (\<forall>dt. ac_d ac CodeDomain = Some dt \<longrightarrow> IndexRange h i ac CodeHistoryIdx q = h (ht dt) q)
   \<and> IndexRange h i ac LogTopicIdx q = i (ac_iis ac LogTopicIdxPos) q
   \<and> IndexRange h i ac LogAddrIdx q = i (ac_iis ac LogAddrIdxPos) q
   \<and> IndexRange h i ac TracesFromIdx q = i (ac_iis ac TracesFromIdxPos) q
   \<and> IndexRange h i ac TracesToIdx q = i (ac_iis ac TracesToIdxPos) q
   \<and> IndexRange h i ac (OtherIdx s) q = Inl (Errorf (''unexpected history name: '' @ s))
   \<and> \<not> is_panic (Errorf (''unexpected history name: '' @ s))"
  by (simp add: IndexRange_def deref_def)

text \<open>
  A view whose handles are pairwise different: the Commitment history index is answered
  by the Storage domain's history handle (21), not by the Commitment domain's (23).
\<close>

definition ac0 :: AggregatorRoTx where
  "ac0 = \<lparr> ac_a = Some 0,
           ac_d = (\<lambda>n. Some \<lparr> d_handle = (case n of AccountsDomain \<Rightarrow> 10 | StorageDomain \<Rightarrow> 11
                                             | CodeDomain \<Rightarrow> 12 | CommitmentDomain \<Rightarrow> 13),
                               d_filenameBase = Domain_String n,
                               ht = \<lparr> h_handle = (case n of AccountsDomain \<Rightarrow> 20 | StorageDomain \<Rightarrow> 21
                                                   | CodeDomain \<Rightarrow> 22 | CommitmentDomain \<Rightarrow> 23) \<rparr>,
                               files_EndTxNum = 0 \<rparr>),
           ac_iis = (\<lambda>p. \<lparr> ii_handle = (case p of LogAddrIdxPos \<Rightarrow> 30 | LogTopicIdxPos \<Rightarrow> 31
                                          | TracesFromIdxPos \<Rightarrow> 32 | TracesToIdxPos \<Rightarrow> 33),
                           ii_filenameBase = (case p of LogAddrIdxPos \<Rightarrow> ''logaddrs''
                                          | LogTopicIdxPos \<Rightarrow> ''logtopics''
                                          | TracesFromIdxPos \<Rightarrow> ''tracesfrom''
                                          | TracesToIdxPos \<Rightarrow> ''tracesto'') \<rparr>),
           ac_appendable = [], ac_id = 1, ac_leakID = 0 \<rparr>"

theorem IndexRange_routes_witness:
  "IndexRange (\<lambda>h q. Inr [h_handle h, q]) (\<lambda>i q. Inr [ii_handle i, q]) ac0
     CommitmentHistoryIdx (7::nat) = Inr [21, 7]
   \<and> IndexRange (\<lambda>h q. Inr [h_handle h, q]) (\<lambda>i q. Inr [ii_handle i, q]) ac0
        CommitmentHistoryIdx (7::nat)
       \<noteq> (\<lambda>h q. Inr [h_handle h, q]) (ht (the (ac_d ac0 CommitmentDomain))) 7"
  using IndexRange_routes [of "\<lambda>h q. Inr [h_handle h, q]" "\<lambda>i q. Inr [ii_handle i, q]" ac0
      "7::nat" "''x''"]
  by (simp add: ac0_def)

text \<open>
  Claim C10.  \<^verbatim>\<open>DomainGetAsOf\<close> hands back the value and the error of the domain's
  \<^verbatim>\<open>GetAsOf\<close> unchanged and reports \<open>ok\<close> as "the value is not \<^verbatim>\<open>nil\<close>": whatever it
  returns, \<open>ok\<close> holds exactly when the value is non-\<^verbatim>\<open>nil\<close>, also when the lookup itself
  returned no error.
\<close>

theorem DomainGetAsOf_found:
  "(\<forall>dt. ac_d ac name = Some dt \<longrightarrow>
      DomainGetAsOf G ac tx name key ts =
        Inr (fst (G dt key ts tx), fst (G dt key ts tx) \<noteq> None, snd (G dt key ts tx)))
   \<and> (\<forall>v ok err. DomainGetAsOf G ac tx name key ts = Inr (v, ok, err) \<longrightarrow> ok = (v \<noteq> None))"
  by (auto simp: DomainGetAsOf_def deref_def split: option.splits prod.splits)

text \<open>
  A lookup that succeeds with a \<^verbatim>\<open>nil\<close> value (a deleted key) is reported as not found; one
  with a value, even an empty one, as found.
\<close>

theorem DomainGetAsOf_found_witness:
  "DomainGetAsOf (\<lambda>dt key ts tx. (if ts < 5 then None else Some key, None)) ac0 () AccountsDomain
      [1, 2] 3 = Inr (None, False, None)
   \<and> DomainGetAsOf (\<lambda>dt key ts tx. (if ts < 5 then None else Some key, None)) ac0 () AccountsDomain
      [] 9 = Inr (Some [], True, None)"
  using DomainGetAsOf_found [of ac0 AccountsDomain
      "\<lambda>dt key ts tx. (if ts < 5 then None else Some key, None)" "()" "[1, 2]" 3]
    DomainGetAsOf_found [of ac0 AccountsDomain
      "\<lambda>dt key ts tx. (if ts < 5 then None else Some key, None)" "()" "[]" 9]
  by (simp add: ac0_def)

subsection \<open>The integrity check\<close>

text \<open>
  Claim C4.  The integrity check returns true for the Commitment domain whatever the
  range, and for every file with \<^verbatim>\<open>toStep - fromStep > 1\<close> (unsigned).  For an Accounts,
  Storage or Code file with \<^verbatim>\<open>toStep - fromStep <= 1\<close> it returns true exactly when
  \<^verbatim>\<open>dir.FileExist\<close> reports, without error, that the file
  \<^verbatim>\<open><SnapDomain>/v1-commitment.<fromStep>-<toStep>.kv\<close> exists; when that file is reported
  missing the check returns false, so the fresh file is not trusted.
\<close>

theorem integrityCheck_spec:
  "integrityCheck fileExist dirs CommitmentDomain fromStep toStep = Inr True
   \<and> (toStep - fromStep > 1 \<longrightarrow> integrityCheck fileExist dirs name fromStep toStep = Inr True)
   \<and> (name \<noteq> CommitmentDomain \<and> toStep - fromStep \<le> 1 \<longrightarrow>
        (integrityCheck fileExist dirs name fromStep toStep = Inr True) =
        (fileExist (SnapDomain dirs @ ''/v1-commitment.'' @ fmt_d (unat fromStep) @ ''-'' @
                    fmt_d (unat toStep) @ ''.kv'') = (True, None)))
   \<and> (name \<noteq> CommitmentDomain \<and> toStep - fromStep \<le> 1 \<and>
        fileExist (SnapDomain dirs @ ''/v1-commitment.'' @ fmt_d (unat fromStep) @ ''-'' @
                    fmt_d (unat toStep) @ ''.kv'') = (False, None) \<longrightarrow>
        integrityCheck fileExist dirs name fromStep toStep = Inr False)"
proof -
  let ?p = "SnapDomain dirs @ ''/v1-commitment.'' @ fmt_d (unat fromStep) @ ''-'' @
                    fmt_d (unat toStep) @ ''.kv''"
  have path: "commitmentFileMustExist fileExist dirs fromStep toStep =
     (case fileExist ?p of (exists, Some err) \<Rightarrow> Inl (PanicErr err)
      | (exists, None) \<Rightarrow> Inr exists)"
    by (simp add: commitmentFileMustExist_def filepath_Join_def)
  have c: "integrityCheck fileExist dirs CommitmentDomain fromStep toStep = Inr True"
    by (simp add: integrityCheck_def)
  have big: "toStep - fromStep > 1 \<Longrightarrow>
      integrityCheck fileExist dirs name fromStep toStep = Inr True"
    by (simp add: integrityCheck_def)
  have small: "integrityCheck fileExist dirs name fromStep toStep =
       commitmentFileMustExist fileExist dirs fromStep toStep"
    if "name \<noteq> CommitmentDomain" "toStep - fromStep \<le> 1"
    using that by (cases name) (simp_all add: integrityCheck_def not_less [symmetric])
  show ?thesis
    using c big small path by (auto split: prod.splits option.splits)
qed

text \<open>
  On a disk that holds the Commitment file of steps 5-6 only: the Accounts file 5-6 is
  trusted, the Storage file 6-7 is not, and the merged Code file 4-6 is trusted unseen.
\<close>

definition disk0 :: "string \<Rightarrow> bool \<times> error option" where
  "disk0 p = (p = ''/snapshots/domain/v1-commitment.5-6.kv'', None)"

definition dirs0 :: Dirs where
  "dirs0 = \<lparr> SnapDomain = ''/snapshots/domain'', Snap = ''/snapshots'', Tmp = ''/tmp'' \<rparr>"

theorem integrityCheck_spec_witness:
  "integrityCheck disk0 dirs0 AccountsDomain 5 6 = Inr True
   \<and> integrityCheck disk0 dirs0 StorageDomain 6 7 = Inr False
   \<and> integrityCheck disk0 dirs0 CodeDomain 4 6 = Inr True
   \<and> integrityCheck disk0 dirs0 CommitmentDomain 6 7 = Inr True"
  using integrityCheck_spec [of disk0 dirs0 5 6 AccountsDomain]
    integrityCheck_spec [of disk0 dirs0 6 7 StorageDomain]
    integrityCheck_spec [of disk0 dirs0 4 6 CodeDomain]
  by (simp add: disk0_def dirs0_def fmt_d.simps digit_def)

subsection \<open>Batch size of the pruning loops\<close>

text \<open>The adjustment rule between the limits of two consecutive iterations.\<close>

definition limit_rule :: "int \<Rightarrow> int \<Rightarrow> u64 \<Rightarrow> u64 \<Rightarrow> bool" where
  "limit_rule timeout took l l' =
    (if 1 * time_Minute \<le> timeout \<and> timeout \<le> 5 * time_Hour then
       (if took < 2 * time_Second then l' = l * 10
        else if took > 30 * time_Second then l' = l div 10
        else l' = l)
     else l' = l)"

lemma adjust_rule: "limit_rule timeout took l (adjustPruneLimit timeout took l)"
  by (auto simp: limit_rule_def adjustPruneLimit_def aggressivePrune_def furiousPrune_def
      logPeriod_def time_Second_def time_Minute_def time_Hour_def Let_def)

lemma iter_rule:
  "PruneSmallBatches_iter t l it = Continue l' \<Longrightarrow> limit_rule t (it_took it) l l'"
  by (auto simp: PruneSmallBatches_iter_def Let_def adjust_rule
      split: PruneRet.splits Select.splits if_splits)

lemma iterDb_rule:
  "PruneSmallBatchesDb_iter t l it = Continue l' \<Longrightarrow> limit_rule t (it_took it) l l'"
  by (auto simp: PruneSmallBatchesDb_iter_def Let_def adjust_rule
      split: PruneRet.splits Select.splits if_splits option.splits)

lemma prune_loop_hd: "\<exists>ls. fst (prune_loop iter l (it # its)) = l # ls"
  by (auto split: loop_step.splits prod.splits)

lemma prune_loop_step:
  assumes R: "\<And>l it l'. iter l it = Continue l' \<Longrightarrow> R (it_took it) l l'"
  shows "Suc n < length (fst (prune_loop iter l its)) \<Longrightarrow>
     R (it_took (its ! n)) (fst (prune_loop iter l its) ! n) (fst (prune_loop iter l its) ! Suc n)"
proof (induction its arbitrary: l n)
  case Nil
  then show ?case by simp
next
  case (Cons it its)
  show ?case
  proof (cases "iter l it")
    case (Return b e)
    with Cons.prems show ?thesis by simp
  next
    case (Continue l')
    obtain ls r where lr: "prune_loop iter l' its = (ls, r)" by (cases "prune_loop iter l' its")
    have eq: "fst (prune_loop iter l (it # its)) = l # ls" using Continue lr by simp
    show ?thesis
    proof (cases n)
      case 0
      from Cons.prems eq 0 have "ls \<noteq> []" by auto
      then obtain it' its' where its: "its = it' # its'" using lr by (cases its) auto
      from prune_loop_hd [of iter l' it' its'] lr its obtain ls' where "ls = l' # ls'" by auto
      with eq 0 R [OF Continue] show ?thesis by simp
    next
      case (Suc m)
      from Cons.prems eq Suc have "Suc m < length (fst (prune_loop iter l' its))" using lr by simp
      from Cons.IH [OF this] show ?thesis using eq Suc lr by simp
    qed
  qed
qed

lemma prune_loop_const:
  assumes R: "\<And>l it l'. iter l it = Continue l' \<Longrightarrow> l' = l"
  shows "x \<in> set (fst (prune_loop iter l its)) \<Longrightarrow> x = l"
proof (induction its arbitrary: l)
  case Nil
  then show ?case by simp
next
  case (Cons it its)
  then show ?case
    by (cases "iter l it"; cases "prune_loop iter (case iter l it of Continue l' \<Rightarrow> l' | _ \<Rightarrow> l) its")
       (auto dest: R)
qed


text \<open>
  The limits in the loops' own arithmetic.  In both \<^verbatim>\<open>PruneSmallBatches\<close> and
  \<^verbatim>\<open>PruneSmallBatchesDb\<close>, for every course of
  iterations: the first limit is 1,000, or 1,000,000 when the timeout exceeds 5 hours;
  when the timeout is between 1 minute and 5 hours (both included), the limit of the next
  iteration is ten times the limit of this one if this one took under 2 seconds, a tenth
  of it (integer division) if it took more than 30 seconds, and the same otherwise; outside
  that mode every iteration runs with the first limit.  The limit is an unsigned 64-bit
  integer and "ten times" is its multiplication, which wraps.
\<close>

theorem prune_batches_limit:
  "(PruneSmallBatches timeout its = (ls, r) \<or> PruneSmallBatchesDb timeout its = (ls, r)) \<longrightarrow>
     (ls \<noteq> [] \<longrightarrow> hd ls = (if timeout > 5 * time_Hour then 1000000 else 1000))
   \<and> (\<forall>n. Suc n < length ls \<longrightarrow>
         (if 1 * time_Minute \<le> timeout \<and> timeout \<le> 5 * time_Hour then
            (if it_took (its ! n) < 2 * time_Second then ls ! Suc n = ls ! n * 10
             else if it_took (its ! n) > 30 * time_Second then ls ! Suc n = ls ! n div 10
             else ls ! Suc n = ls ! n)
          else ls ! Suc n = ls ! n))
   \<and> (\<not> (1 * time_Minute \<le> timeout \<and> timeout \<le> 5 * time_Hour) \<longrightarrow>
         (\<forall>l \<in> set ls. l = (if timeout > 5 * time_Hour then 1000000 else 1000)))"
proof
  assume run: "PruneSmallBatches timeout its = (ls, r) \<or> PruneSmallBatchesDb timeout its = (ls, r)"
  let ?l0 = "pruneLimit0 timeout"
  from run obtain iter where iter: "prune_loop iter ?l0 its = (ls, r)"
    and rule: "\<And>l it l'. iter l it = Continue l' \<Longrightarrow> limit_rule timeout (it_took it) l l'"
    unfolding PruneSmallBatches_def PruneSmallBatchesDb_def
    using iter_rule iterDb_rule by blast
  have l0: "?l0 = (if timeout > 5 * time_Hour then 1000000 else 1000)"
    by (simp add: pruneLimit0_def furiousPrune_def)
  have ls: "ls = fst (prune_loop iter ?l0 its)" using iter by simp
  have first: "ls \<noteq> [] \<longrightarrow> hd ls = ?l0"
  proof (cases its)
    case Nil
    with iter show ?thesis by simp
  next
    case (Cons it its')
    with prune_loop_hd [of iter ?l0 it its'] ls show ?thesis by auto
  qed
  have step: "limit_rule timeout (it_took (its ! n)) (ls ! n) (ls ! Suc n)"
    if "Suc n < length ls" for n
    using prune_loop_step [of iter "limit_rule timeout" n ?l0 its] rule that ls by simp
  have const: "l = ?l0"
    if "\<not> (1 * time_Minute \<le> timeout \<and> timeout \<le> 5 * time_Hour)" "l \<in> set ls" for l
  proof -
    have "\<And>l it l'. iter l it = Continue l' \<Longrightarrow> l' = l"
      using rule that(1) by (simp add: limit_rule_def)
    from prune_loop_const [of iter l ?l0 its, OF this] that(2) ls show ?thesis by simp
  qed
  show "(ls \<noteq> [] \<longrightarrow> hd ls = (if timeout > 5 * time_Hour then 1000000 else 1000))
   \<and> (\<forall>n. Suc n < length ls \<longrightarrow>
         (if 1 * time_Minute \<le> timeout \<and> timeout \<le> 5 * time_Hour then
            (if it_took (its ! n) < 2 * time_Second then ls ! Suc n = ls ! n * 10
             else if it_took (its ! n) > 30 * time_Second then ls ! Suc n = ls ! n div 10
             else ls ! Suc n = ls ! n)
          else ls ! Suc n = ls ! n))
   \<and> (\<not> (1 * time_Minute \<le> timeout \<and> timeout \<le> 5 * time_Hour) \<longrightarrow>
         (\<forall>l \<in> set ls. l = (if timeout > 5 * time_Hour then 1000000 else 1000)))"
  proof (intro conjI)
    show "ls \<noteq> [] \<longrightarrow> hd ls = (if timeout > 5 * time_Hour then 1000000 else 1000)"
      using first unfolding l0 .
    have "\<forall>n. Suc n < length ls \<longrightarrow>
        limit_rule timeout (it_took (its ! n)) (ls ! n) (ls ! Suc n)"
      using step by blast
    then show "\<forall>n. Suc n < length ls \<longrightarrow>
         (if 1 * time_Minute \<le> timeout \<and> timeout \<le> 5 * time_Hour then
            (if it_took (its ! n) < 2 * time_Second then ls ! Suc n = ls ! n * 10
             else if it_took (its ! n) > 30 * time_Second then ls ! Suc n = ls ! n div 10
             else ls ! Suc n = ls ! n)
          else ls ! Suc n = ls ! n)"
      unfolding limit_rule_def .
    show "\<not> (1 * time_Minute \<le> timeout \<and> timeout \<le> 5 * time_Hour) \<longrightarrow>
         (\<forall>l \<in> set ls. l = (if timeout > 5 * time_Hour then 1000000 else 1000))"
      using const unfolding l0 by blast
  qed
qed

text \<open>
  Four iterations taking 1 s, 40 s, 5 s and 1 s, the last one finding nothing to prune:
  under a 2 minute timeout the limits are 1000, 10000, 1000, 1000; under a 6 hour timeout
  they stay at 1000000.
\<close>

definition iter0 :: "int \<Rightarrow> iteration" where
  "iter0 took = \<lparr> it_begin = None, it_prune = PruneStat False, it_took = took * time_Second,
                  it_commit = None, it_select = SelDefault \<rparr>"

definition run0 :: "iteration list" where
  "run0 = [iter0 1, iter0 40, iter0 5, (iter0 1) \<lparr> it_prune := PruneNil \<rparr>]"

lemma run0_aggressive: "PruneSmallBatches (2 * time_Minute) run0 = ([1000, 10000, 1000, 1000], Some (False, None))"
  by (simp add: PruneSmallBatches_def PruneSmallBatches_iter_def run0_def iter0_def pruneLimit0_def
      adjustPruneLimit_def aggressivePrune_def furiousPrune_def logPeriod_def
      time_Second_def time_Minute_def time_Hour_def)

lemma run0_furious: "PruneSmallBatchesDb (6 * time_Hour) run0 = ([1000000, 1000000, 1000000, 1000000], Some (False, None))"
  by (simp add: PruneSmallBatchesDb_def PruneSmallBatchesDb_iter_def run0_def iter0_def pruneLimit0_def
      adjustPruneLimit_def aggressivePrune_def furiousPrune_def logPeriod_def
      time_Second_def time_Minute_def time_Hour_def)


theorem prune_batches_limit_witness:
  "PruneSmallBatches (2 * time_Minute) run0 = ([1000, 10000, 1000, 1000], Some (False, None))
   \<and> PruneSmallBatchesDb (6 * time_Hour) run0 =
        ([1000000, 1000000, 1000000, 1000000], Some (False, None))
   \<and> hd [1000, 10000, 1000, 1000 :: u64] = 1000
   \<and> [1000, 10000, 1000, 1000 :: u64] ! Suc 0 = [1000, 10000, 1000, 1000] ! 0 * 10
   \<and> [1000, 10000, 1000, 1000 :: u64] ! Suc 1 = [1000, 10000, 1000, 1000] ! 1 div 10"
  using prune_batches_limit [of "2 * time_Minute" run0 "[1000, 10000, 1000, 1000]"
      "Some (False, None)"]
    prune_batches_limit [of "6 * time_Hour" run0 "[1000000, 1000000, 1000000, 1000000]"
      "Some (False, None)"]
    run0_aggressive run0_furious
  by simp

text \<open>Iterations that all continue with ten times the limit.\<close>

lemma iter0_fast:
  "PruneSmallBatches_iter (2 * time_Minute) l (iter0 1) = Continue (l * 10)"
  "PruneSmallBatchesDb_iter (2 * time_Minute) l (iter0 1) = Continue (l * 10)"
  by (simp_all add: PruneSmallBatches_iter_def PruneSmallBatchesDb_iter_def iter0_def
      adjustPruneLimit_def aggressivePrune_def furiousPrune_def logPeriod_def
      time_Second_def time_Minute_def time_Hour_def)

lemma prune_loop_fast:
  assumes "\<And>l. iter l it = Continue (l * 10)"
  shows "prune_loop iter l (replicate n it) = (map (\<lambda>k. l * 10 ^ k) [0 ..< n], None)"
proof (induction n arbitrary: l)
  case 0
  then show ?case by simp
next
  case (Suc n)
  have "map (\<lambda>k. l * 10 ^ k) [0 ..< Suc n] = l # map (\<lambda>k. (l * 10) * 10 ^ k) [0 ..< n]"
    by (simp add: upt_conv_Cons map_Suc_upt [symmetric] del: upt_Suc)
  with Suc [of "l * 10"] assms show ?case by simp
qed

lemma fast_limits:
  "fst (PruneSmallBatches (2 * time_Minute) (replicate n (iter0 1))) = map (\<lambda>k. 1000 * 10 ^ k) [0 ..< n]"
  "fst (PruneSmallBatchesDb (2 * time_Minute) (replicate n (iter0 1))) = map (\<lambda>k. 1000 * 10 ^ k) [0 ..< n]"
proof -
  have l0: "pruneLimit0 (2 * time_Minute) = 1000"
    by (simp add: pruneLimit0_def furiousPrune_def time_Second_def time_Minute_def time_Hour_def)
  show "fst (PruneSmallBatches (2 * time_Minute) (replicate n (iter0 1)))
      = map (\<lambda>k. 1000 * 10 ^ k) [0 ..< n]"
    unfolding PruneSmallBatches_def l0
      prune_loop_fast [of "PruneSmallBatches_iter (2 * time_Minute)" "iter0 1", OF iter0_fast(1)]
    by (rule fst_conv)
  show "fst (PruneSmallBatchesDb (2 * time_Minute) (replicate n (iter0 1)))
      = map (\<lambda>k. 1000 * 10 ^ k) [0 ..< n]"
    unfolding PruneSmallBatchesDb_def l0
      prune_loop_fast [of "PruneSmallBatchesDb_iter (2 * time_Minute)" "iter0 1", OF iter0_fast(2)]
    by (rule fst_conv)
qed

text \<open>
  Claim C6.  The claim says that in aggressive mode the limit is multiplied by 10 after an
  iteration that took under 2 seconds.  The loops multiply a \<^verbatim>\<open>uint64\<close> and do not guard the
  product.  Under the timeout of 2 minutes, with iterations of 1 second that each prune
  something, the limit of the 17th iteration is 10,000,000,000,000,000,000 and that of the
  18th is 7,766,279,631,452,241,920: not ten times the limit before it but less than it.
  The limit of the 62nd iteration is 0, which \<^verbatim>\<open>Prune\<close> reads as no bound.  Both loops do so.
\<close>

theorem prune_batches_overflow:
  "aggressivePrune (2 * time_Minute)
   \<and> it_took (replicate 18 (iter0 1) ! 16) < 2 * time_Second
   \<and> fst (PruneSmallBatchesDb (2 * time_Minute) (replicate 18 (iter0 1))) ! 16 = 10000000000000000000
   \<and> fst (PruneSmallBatchesDb (2 * time_Minute) (replicate 18 (iter0 1))) ! 17 = 7766279631452241920
   \<and> fst (PruneSmallBatches (2 * time_Minute) (replicate 18 (iter0 1))) ! 16 = 10000000000000000000
   \<and> fst (PruneSmallBatches (2 * time_Minute) (replicate 18 (iter0 1))) ! 17 = 7766279631452241920
   \<and> unat (7766279631452241920 :: u64) \<noteq> unat (10000000000000000000 :: u64) * 10
   \<and> (7766279631452241920 :: u64) < 10000000000000000000
   \<and> fst (PruneSmallBatchesDb (2 * time_Minute) (replicate 62 (iter0 1))) ! 61 = 0
   \<and> fst (PruneSmallBatches (2 * time_Minute) (replicate 62 (iter0 1))) ! 61 = 0"
proof -
  have a: "aggressivePrune (2 * time_Minute)"
    by (simp add: aggressivePrune_def furiousPrune_def time_Second_def time_Minute_def
        time_Hour_def)
  have b: "it_took (replicate 18 (iter0 1) ! 16) < 2 * time_Second"
    by (simp add: iter0_def time_Second_def)
  have n: "map (\<lambda>k. (1000 :: u64) * 10 ^ k) [0 ..< 18] ! 16 = 10000000000000000000"
    "map (\<lambda>k. (1000 :: u64) * 10 ^ k) [0 ..< 18] ! 17 = 7766279631452241920"
    "map (\<lambda>k. (1000 :: u64) * 10 ^ k) [0 ..< 62] ! 61 = 0"
    by (simp_all del: upt_Suc)
  have w: "unat (7766279631452241920 :: u64) \<noteq> unat (10000000000000000000 :: u64) * 10"
    "(7766279631452241920 :: u64) < 10000000000000000000"
    by simp_all
  show ?thesis
    unfolding fast_limits n using a b w by (intro conjI) simp_all
qed

subsection \<open>Closing a view twice\<close>

text \<open>Any number of further calls, starting from the state a call left.\<close>

lemma Close_closed:
  "Close (fst (Close acp evs)) evs' = (fst (Close acp evs), evs')"
  by (simp add: Close_def split: option.splits)

lemma Close_again:
  "((\<lambda>(p, e). Close p e) ^^ n) (Close acp evs) = Close acp evs"
proof (induction n)
  case 0
  show ?case by simp
next
  case (Suc n)
  have "(\<lambda>(p, e). Close p e) (Close acp evs) = Close acp evs"
    using Close_closed [of acp evs "snd (Close acp evs)"] by (simp add: case_prod_beta)
  with Suc show ?case by simp
qed

text \<open>
  Claim C8.  \<^verbatim>\<open>Close\<close> on a \<^verbatim>\<open>nil\<close> receiver changes nothing.  After a first call, any number
  of further calls leave the view and the record of released handles exactly as the
  first call left them.  The first call on an open view clears the back pointer and
  releases, in order, every non-\<^verbatim>\<open>nil\<close> domain handle, every index handle and every
  appendable handle of the view, and nothing else; so each handle slot is released once,
  however often \<^verbatim>\<open>Close\<close> is called.
\<close>

theorem Close_idempotent:
  "Close None evs = (None, evs)
   \<and> ((\<lambda>(p, e). Close p e) ^^ Suc n) (acp, evs) = Close acp evs
   \<and> (\<forall>ac agg. acp = Some ac \<and> ac_a ac = Some agg \<longrightarrow>
         ((\<lambda>(p, e). Close p e) ^^ Suc n) (acp, evs) =
           (Some (ac \<lparr> ac_a := None \<rparr>),
            evs @ [LeakDel (ac_leakID ac)]
              @ concat (map (\<lambda>n. case ac_d ac n of None \<Rightarrow> []
                                   | Some dt \<Rightarrow> [DomainClose (d_handle dt)])
                   [AccountsDomain, StorageDomain, CodeDomain, CommitmentDomain])
              @ map (\<lambda>p. IndexClose (ii_handle (ac_iis ac p)))
                   [LogAddrIdxPos, LogTopicIdxPos, TracesFromIdxPos, TracesToIdxPos]
              @ map (\<lambda>ap. AppendableClose (ap_handle ap)) (ac_appendable ac)))"
proof -
  have again: "((\<lambda>(p, e). Close p e) ^^ Suc n) (acp, evs) = Close acp evs"
    using Close_again [of n acp evs] by (simp add: funpow_swap1)
  have first: "Close (Some ac) evs =
           (Some (ac \<lparr> ac_a := None \<rparr>),
            evs @ [LeakDel (ac_leakID ac)]
              @ concat (map (\<lambda>n. case ac_d ac n of None \<Rightarrow> []
                                   | Some dt \<Rightarrow> [DomainClose (d_handle dt)])
                   [AccountsDomain, StorageDomain, CodeDomain, CommitmentDomain])
              @ map (\<lambda>p. IndexClose (ii_handle (ac_iis ac p)))
                   [LogAddrIdxPos, LogTopicIdxPos, TracesFromIdxPos, TracesToIdxPos]
              @ map (\<lambda>ap. AppendableClose (ap_handle ap)) (ac_appendable ac))"
    if "ac_a ac = Some agg" for ac agg
    using that
    by (simp add: Close_def Close_domains_def Close_iis_def Close_appendable_def
        DomainLen_def StandaloneIdxLen_def)
  show ?thesis
  proof (intro conjI allI impI)
    show "Close None evs = (None, evs)" by (simp add: Close_def)
    show "((\<lambda>(p, e). Close p e) ^^ Suc n) (acp, evs) = Close acp evs" by (rule again)
    fix ac agg
    assume h: "acp = Some ac \<and> ac_a ac = Some agg"
    have "((\<lambda>(p, e). Close p e) ^^ Suc n) (acp, evs) = Close (Some ac) evs"
      using again h by (simp only:)
    also note first [of ac agg]
    finally show "((\<lambda>(p, e). Close p e) ^^ Suc n) (acp, evs) =
           (Some (ac \<lparr> ac_a := None \<rparr>),
            evs @ [LeakDel (ac_leakID ac)]
              @ concat (map (\<lambda>n. case ac_d ac n of None \<Rightarrow> []
                                   | Some dt \<Rightarrow> [DomainClose (d_handle dt)])
                   [AccountsDomain, StorageDomain, CodeDomain, CommitmentDomain])
              @ map (\<lambda>p. IndexClose (ii_handle (ac_iis ac p)))
                   [LogAddrIdxPos, LogTopicIdxPos, TracesFromIdxPos, TracesToIdxPos]
              @ map (\<lambda>ap. AppendableClose (ap_handle ap)) (ac_appendable ac))"
      using h by simp
  qed
qed

text \<open>
  The view \<open>ac0\<close>, closed three times: one removal from the leak detector and one release
  of each of its eight handles.
\<close>

theorem Close_idempotent_witness:
  "((\<lambda>(p, e). Close p e) ^^ Suc 2) (Some ac0, []) =
     (Some (ac0 \<lparr> ac_a := None \<rparr>),
      [LeakDel 0, DomainClose 10, DomainClose 11, DomainClose 12, DomainClose 13,
       IndexClose 30, IndexClose 31, IndexClose 32, IndexClose 33])"
proof -
  have open0: "ac_a ac0 = Some 0" by (simp add: ac0_def)
  from Close_idempotent [of "[]" 2 "Some ac0"] open0
  have "((\<lambda>(p, e). Close p e) ^^ Suc 2) (Some ac0, []) =
           (Some (ac0 \<lparr> ac_a := None \<rparr>),
            [] @ [LeakDel (ac_leakID ac0)]
              @ concat (map (\<lambda>n. case ac_d ac0 n of None \<Rightarrow> []
                                   | Some dt \<Rightarrow> [DomainClose (d_handle dt)])
                   [AccountsDomain, StorageDomain, CodeDomain, CommitmentDomain])
              @ map (\<lambda>p. IndexClose (ii_handle (ac_iis ac0 p)))
                   [LogAddrIdxPos, LogTopicIdxPos, TracesFromIdxPos, TracesToIdxPos]
              @ map (\<lambda>ap. AppendableClose (ap_handle ap)) (ac_appendable ac0))"
    by blast
  also have "\<dots> = (Some (ac0 \<lparr> ac_a := None \<rparr>),
      [LeakDel 0, DomainClose 10, DomainClose 11, DomainClose 12, DomainClose 13,
       IndexClose 30, IndexClose 31, IndexClose 32, IndexClose 33])"
    by (simp add: ac0_def)
  finally show ?thesis .
qed

subsection \<open>The prune boundary\<close>

lemma Prune_domains_calls:
  "Prune_domains env step f t l ps st tx calls = (r, st', tx', calls') \<Longrightarrow>
   \<exists>cs. calls' = calls @ cs \<and>
        (\<forall>c \<in> set cs. call_txFrom c = f \<and> call_txTo c = t \<and> call_limit c = l)"
proof (induction ps arbitrary: st tx calls)
  case Nil
  then show ?case by simp
next
  case (Cons p ps)
  show ?case
  proof (cases p)
    case None
    with Cons.prems show ?thesis by simp
  next
    case (Some dt)
    obtain stat err tx1 where dp: "dPrune env dt tx step f t l = ((stat, err), tx1)"
      by (metis surj_pair)
    show ?thesis
    proof (cases err)
      case None
      with Cons.prems Some dp
      have "Prune_domains env step f t l ps
              (st \<lparr> Domains := (Domains st)(d_filenameBase dt \<mapsto> stat) \<rparr>) tx1
              (calls @ [DomainPrune (d_handle dt) step f t l]) = (r, st', tx', calls')"
        by (simp add: Let_def)
      from Cons.IH [OF this] show ?thesis by auto
    next
      case (Some e)
      with Cons.prems \<open>p = Some dt\<close> dp show ?thesis by (auto simp: Let_def)
    qed
  qed
qed

lemma Prune_iis_calls:
  "Prune_iis env f t l is stats tx calls = (r, stats', tx', calls') \<Longrightarrow>
   \<exists>cs. calls' = calls @ cs \<and>
        (\<forall>c \<in> set cs. call_txFrom c = f \<and> call_txTo c = t \<and> call_limit c = l)"
proof (induction "is" arbitrary: stats tx calls)
  case Nil
  then show ?case by simp
next
  case (Cons ii "is")
  obtain stat err tx1 where ip: "iiPrune env ii tx f t l = ((stat, err), tx1)"
    by (metis surj_pair)
  show ?case
  proof (cases err)
    case None
    with Cons.prems ip
    have "Prune_iis env f t l is (stats @ [(ii_filenameBase ii, stat)]) tx1
            (calls @ [IndexPrune (ii_handle ii) f t l]) = (r, stats', tx', calls')"
      by (simp add: Let_def)
    from Cons.IH [OF this] show ?thesis by auto
  next
    case (Some e)
    with Cons.prems ip show ?thesis by (auto simp: Let_def)
  qed
qed

lemma Prune_appendable_calls:
  "Prune_appendable env f t l aps st tx calls = (r, st', tx', calls') \<Longrightarrow>
   \<exists>cs. calls' = calls @ cs \<and>
        (\<forall>c \<in> set cs. call_txFrom c = f \<and> call_txTo c = t \<and> call_limit c = l)"
proof (induction aps arbitrary: st tx calls)
  case Nil
  then show ?case by simp
next
  case (Cons ap aps)
  obtain stat err tx1 where pp: "apPrune env ap tx f t l = ((stat, err), tx1)"
    by (metis surj_pair)
  show ?case
  proof (cases err)
    case None
    with Cons.prems pp
    have "Prune_appendable env f t l aps
            (st \<lparr> Appendable := (Appendable st)(ap_filenameBase ap \<mapsto> stat) \<rparr>) tx1
            (calls @ [AppendablePrune (ap_handle ap) f t l]) = (r, st', tx', calls')"
      by (simp add: Let_def)
    from Cons.IH [OF this] show ?thesis by auto
  next
    case (Some e)
    with Cons.prems pp show ?thesis by (auto simp: Let_def)
  qed
qed

text \<open>
  The contract of the component methods the boundary rests on: pruning up to \<open>txTo\<close> leaves
  what the transaction holds from \<open>txTo\<close> on (the observation \<open>rows_from txTo\<close>) as it was.
\<close>

definition prune_within ::
  "(u64 \<Rightarrow> 'tx \<Rightarrow> 'o) \<Rightarrow> ('tx, 'ds, 'is, 'as) prune_env \<Rightarrow> bool" where
  "prune_within rows_from env =
    ((\<forall>dt tx step f t l. rows_from t (snd (dPrune env dt tx step f t l)) = rows_from t tx)
     \<and> (\<forall>ii tx f t l. rows_from t (snd (iiPrune env ii tx f t l)) = rows_from t tx)
     \<and> (\<forall>ap tx f t l. rows_from t (snd (apPrune env ap tx f t l)) = rows_from t tx))"

lemma Prune_domains_frame:
  "prune_within rows_from env \<Longrightarrow>
   Prune_domains env step f t l ps st tx calls = (r, st', tx', calls') \<Longrightarrow>
   rows_from t tx' = rows_from t tx"
proof (induction ps arbitrary: st tx calls)
  case Nil
  then show ?case by simp
next
  case (Cons p ps)
  show ?case
  proof (cases p)
    case None
    with Cons.prems show ?thesis by simp
  next
    case (Some dt)
    obtain stat err tx1 where dp: "dPrune env dt tx step f t l = ((stat, err), tx1)"
      by (metis surj_pair)
    from Cons.prems(1) have fr: "rows_from t tx1 = rows_from t tx"
      using dp unfolding prune_within_def by (metis snd_conv)
    show ?thesis
    proof (cases err)
      case None
      with Cons.prems Some dp
      have "Prune_domains env step f t l ps
              (st \<lparr> Domains := (Domains st)(d_filenameBase dt \<mapsto> stat) \<rparr>) tx1
              (calls @ [DomainPrune (d_handle dt) step f t l]) = (r, st', tx', calls')"
        by (simp add: Let_def)
      from Cons.IH [OF Cons.prems(1) this] fr show ?thesis by simp
    next
      case (Some e)
      with Cons.prems \<open>p = Some dt\<close> dp fr show ?thesis by (auto simp: Let_def)
    qed
  qed
qed

lemma Prune_iis_frame:
  "prune_within rows_from env \<Longrightarrow>
   Prune_iis env f t l is stats tx calls = (r, stats', tx', calls') \<Longrightarrow>
   rows_from t tx' = rows_from t tx"
proof (induction "is" arbitrary: stats tx calls)
  case Nil
  then show ?case by simp
next
  case (Cons ii "is")
  obtain stat err tx1 where ip: "iiPrune env ii tx f t l = ((stat, err), tx1)"
    by (metis surj_pair)
  from Cons.prems(1) have fr: "rows_from t tx1 = rows_from t tx"
    using ip unfolding prune_within_def by (metis snd_conv)
  show ?case
  proof (cases err)
    case None
    with Cons.prems ip
    have "Prune_iis env f t l is (stats @ [(ii_filenameBase ii, stat)]) tx1
            (calls @ [IndexPrune (ii_handle ii) f t l]) = (r, stats', tx', calls')"
      by (simp add: Let_def)
    from Cons.IH [OF Cons.prems(1) this] fr show ?thesis by simp
  next
    case (Some e)
    with Cons.prems ip fr show ?thesis by (auto simp: Let_def)
  qed
qed

lemma Prune_appendable_frame:
  "prune_within rows_from env \<Longrightarrow>
   Prune_appendable env f t l aps st tx calls = (r, st', tx', calls') \<Longrightarrow>
   rows_from t tx' = rows_from t tx"
proof (induction aps arbitrary: st tx calls)
  case Nil
  then show ?case by simp
next
  case (Cons ap aps)
  obtain stat err tx1 where pp: "apPrune env ap tx f t l = ((stat, err), tx1)"
    by (metis surj_pair)
  from Cons.prems(1) have fr: "rows_from t tx1 = rows_from t tx"
    using pp unfolding prune_within_def by (metis snd_conv)
  show ?case
  proof (cases err)
    case None
    with Cons.prems pp
    have "Prune_appendable env f t l aps
            (st \<lparr> Appendable := (Appendable st)(ap_filenameBase ap \<mapsto> stat) \<rparr>) tx1
            (calls @ [AppendablePrune (ap_handle ap) f t l]) = (r, st', tx', calls')"
      by (simp add: Let_def)
    from Cons.IH [OF Cons.prems(1) this] fr show ?thesis by simp
  next
    case (Some e)
    with Cons.prems pp fr show ?thesis by (auto simp: Let_def)
  qed
qed

text \<open>The shape of a run of \<^verbatim>\<open>Prune\<close> that reaches the component loops.\<close>

lemma Prune_cases:
  assumes "Prune env ac agg tx limit = (r, tx', calls)"
  shows "(tx' = tx \<and> calls = []) \<or>
    (\<exists>r1 st1 tx1 calls1 r2 st2 tx2 calls2 r3 st3 st3'.
       Prune_domains env (if visibleFilesMinimaxTxNum agg > 0
                          then (visibleFilesMinimaxTxNum agg - 1) div aggregationStep agg else 0)
          0 (visibleFilesMinimaxTxNum agg)
          (if limit = 0 then 18446744073709551615 else limit) (map (ac_d ac) DomainLen) newAggregatorPruneStat tx []
         = (r1, st1, tx1, calls1)
       \<and> ((tx' = tx1 \<and> calls = calls1) \<or>
           (Prune_iis env 0 (visibleFilesMinimaxTxNum agg) (if limit = 0 then 18446744073709551615 else limit)
              (map (ac_iis ac) StandaloneIdxLen) [] tx1 calls1 = (r2, st2, tx2, calls2)
            \<and> ((tx' = tx2 \<and> calls = calls2) \<or>
                Prune_appendable env 0 (visibleFilesMinimaxTxNum agg)
                  (if limit = 0 then 18446744073709551615 else limit) (ac_appendable ac) st3 tx2 calls2
                  = (r3, st3', tx', calls)))))"
  using assms unfolding Prune_def Let_def
  by (auto split: if_splits sum.splits bool.splits prod.splits option.splits)

text \<open>
  What a call of \<^verbatim>\<open>Prune\<close> that runs through its three loops asks of the components: one
  \<^verbatim>\<open>Prune\<close> of each domain of the view with the step of the boundary, then one of each
  standalone index, then one of each appendable, all with the range from 0 to
  \<^verbatim>\<open>visibleFilesMinimaxTxNum\<close> and the key bound.
\<close>

definition Prune_calls :: "AggregatorRoTx \<Rightarrow> Aggregator \<Rightarrow> u64 \<Rightarrow> PruneCall list" where
  "Prune_calls ac agg limit =
    (let txTo = visibleFilesMinimaxTxNum agg;
         step = (if txTo > 0 then (txTo - 1) div aggregationStep agg else 0);
         bound = (if limit = 0 then 18446744073709551615 else limit)
     in concat (map (\<lambda>k. case ac_d ac k of
                             None \<Rightarrow> []
                           | Some dt \<Rightarrow> [DomainPrune (d_handle dt) step 0 txTo bound]) DomainLen)
        @ map (\<lambda>p. IndexPrune (ii_handle (ac_iis ac p)) 0 txTo bound) StandaloneIdxLen
        @ map (\<lambda>ap. AppendablePrune (ap_handle ap) 0 txTo bound) (ac_appendable ac))"

text \<open>No component \<^verbatim>\<open>Prune\<close> returns an error.\<close>

definition prune_ok :: "('tx, 'ds, 'is, 'as) prune_env \<Rightarrow> bool" where
  "prune_ok env =
    ((\<forall>dt tx step f t l. snd (fst (dPrune env dt tx step f t l)) = None)
     \<and> (\<forall>ii tx f t l. snd (fst (iiPrune env ii tx f t l)) = None)
     \<and> (\<forall>ap tx f t l. snd (fst (apPrune env ap tx f t l)) = None))"

lemma Prune_domains_run:
  "Prune_domains env step f t l ps st tx calls = (r, st', tx', calls') \<Longrightarrow>
   (\<exists>rest. calls @ concat (map (\<lambda>p. case p of None \<Rightarrow> []
                | Some dt \<Rightarrow> [DomainPrune (d_handle dt) step f t l]) ps) = calls' @ rest)
   \<and> (r = None \<longrightarrow> calls' = calls @ concat (map (\<lambda>p. case p of None \<Rightarrow> []
                | Some dt \<Rightarrow> [DomainPrune (d_handle dt) step f t l]) ps))
   \<and> (\<forall>s. r \<noteq> Some (Inr (Some s, None)))
   \<and> (prune_ok env \<and> None \<notin> set ps \<longrightarrow> r = None)"
proof (induction ps arbitrary: st tx calls)
  case Nil
  then show ?case by auto
next
  case (Cons p ps)
  show ?case
  proof (cases p)
    case None
    with Cons.prems show ?thesis by auto
  next
    case (Some dt)
    obtain stat err tx1 where dp: "dPrune env dt tx step f t l = ((stat, err), tx1)"
      by (metis surj_pair)
    show ?thesis
    proof (cases err)
      case None
      with Cons.prems Some dp
      have "Prune_domains env step f t l ps
              (st \<lparr> Domains := (Domains st)(d_filenameBase dt \<mapsto> stat) \<rparr>) tx1
              (calls @ [DomainPrune (d_handle dt) step f t l]) = (r, st', tx', calls')"
        by (simp add: Let_def)
      from Cons.IH [OF this] show ?thesis using Some by auto
    next
      case (Some e)
      have "\<not> prune_ok env"
        using dp Some unfolding prune_ok_def by (metis fst_conv snd_conv option.distinct(1))
      with Cons.prems \<open>p = Some dt\<close> dp Some show ?thesis by (auto simp: Let_def)
    qed
  qed
qed

lemma Prune_iis_run:
  "Prune_iis env f t l is stats tx calls = (r, stats', tx', calls') \<Longrightarrow>
   (\<exists>rest. calls @ map (\<lambda>ii. IndexPrune (ii_handle ii) f t l) is = calls' @ rest)
   \<and> (r = None \<longrightarrow> calls' = calls @ map (\<lambda>ii. IndexPrune (ii_handle ii) f t l) is)
   \<and> (\<forall>s. r \<noteq> Some (Inr (Some s, None)))
   \<and> (prune_ok env \<longrightarrow> r = None)"
proof (induction "is" arbitrary: stats tx calls)
  case Nil
  then show ?case by auto
next
  case (Cons ii "is")
  obtain stat err tx1 where ip: "iiPrune env ii tx f t l = ((stat, err), tx1)"
    by (metis surj_pair)
  show ?case
  proof (cases err)
    case None
    with Cons.prems ip
    have "Prune_iis env f t l is (stats @ [(ii_filenameBase ii, stat)]) tx1
            (calls @ [IndexPrune (ii_handle ii) f t l]) = (r, stats', tx', calls')"
      by (simp add: Let_def)
    from Cons.IH [OF this] show ?thesis by auto
  next
    case (Some e)
    have "\<not> prune_ok env"
      using ip Some unfolding prune_ok_def by (metis fst_conv snd_conv option.distinct(1))
    with Cons.prems ip Some show ?thesis by (auto simp: Let_def)
  qed
qed

lemma Prune_appendable_run:
  "Prune_appendable env f t l aps st tx calls = (r, st', tx', calls') \<Longrightarrow>
   (\<exists>rest. calls @ map (\<lambda>ap. AppendablePrune (ap_handle ap) f t l) aps = calls' @ rest)
   \<and> (r = None \<longrightarrow> calls' = calls @ map (\<lambda>ap. AppendablePrune (ap_handle ap) f t l) aps)
   \<and> (\<forall>s. r \<noteq> Some (Inr (Some s, None)))
   \<and> (prune_ok env \<longrightarrow> r = None)"
proof (induction aps arbitrary: st tx calls)
  case Nil
  then show ?case by auto
next
  case (Cons ap aps)
  obtain stat err tx1 where pp: "apPrune env ap tx f t l = ((stat, err), tx1)"
    by (metis surj_pair)
  show ?case
  proof (cases err)
    case None
    with Cons.prems pp
    have "Prune_appendable env f t l aps
            (st \<lparr> Appendable := (Appendable st)(ap_filenameBase ap \<mapsto> stat) \<rparr>) tx1
            (calls @ [AppendablePrune (ap_handle ap) f t l]) = (r, st', tx', calls')"
      by (simp add: Let_def)
    from Cons.IH [OF this] show ?thesis by auto
  next
    case (Some e)
    have "\<not> prune_ok env"
      using pp Some unfolding prune_ok_def by (metis fst_conv snd_conv option.distinct(1))
    with Cons.prems pp Some show ?thesis by (auto simp: Let_def)
  qed
qed
lemma Prune_shape:
  assumes "Prune env ac agg tx limit = (r, tx', calls)"
  shows "(calls = [] \<and> (\<forall>s. r \<noteq> Inr (Some s, None))
          \<and> \<not> (ac_a ac \<noteq> None \<and> visibleFilesMinimaxTxNum agg \<noteq> 0 \<and> aggregationStep agg \<noteq> 0
                 \<and> CanPrune env ac tx (visibleFilesMinimaxTxNum agg) = Inr True))
    \<or> (\<exists>r1 st1 tx1 calls1.
         Prune_domains env (if visibleFilesMinimaxTxNum agg > 0
                            then (visibleFilesMinimaxTxNum agg - 1) div aggregationStep agg else 0)
            0 (visibleFilesMinimaxTxNum agg)
            (if limit = 0 then 18446744073709551615 else limit) (map (ac_d ac) DomainLen)
            newAggregatorPruneStat tx [] = (r1, st1, tx1, calls1)
         \<and> ((r1 = Some r \<and> calls = calls1)
             \<or> (r1 = None \<and> (\<exists>r2 st2 tx2 calls2.
                   Prune_iis env 0 (visibleFilesMinimaxTxNum agg)
                     (if limit = 0 then 18446744073709551615 else limit)
                     (map (ac_iis ac) StandaloneIdxLen) [] tx1 calls1 = (r2, st2, tx2, calls2)
                   \<and> ((r2 = Some r \<and> calls = calls2)
                       \<or> (r2 = None \<and> (\<exists>r3 st3 st3'.
                             Prune_appendable env 0 (visibleFilesMinimaxTxNum agg)
                               (if limit = 0 then 18446744073709551615 else limit)
                               (ac_appendable ac) st3 tx2 calls2 = (r3, st3', tx', calls)
                             \<and> (r3 = Some r \<or> (r3 = None \<and> r = Inr (Some st3', None))))))))))"
  using assms unfolding Prune_def Let_def
  by (auto split: if_splits sum.splits bool.splits prod.splits option.splits)

lemma Prune_calls_made:
  assumes run: "Prune env ac agg tx limit = (r, tx', calls)"
  shows "(\<exists>rest. Prune_calls ac agg limit = calls @ rest)
    \<and> ((\<exists>s. r = Inr (Some s, None)) \<longrightarrow> calls = Prune_calls ac agg limit)
    \<and> (ac_a ac \<noteq> None \<and> (\<forall>k. ac_d ac k \<noteq> None) \<and> visibleFilesMinimaxTxNum agg \<noteq> 0
        \<and> aggregationStep agg \<noteq> 0
        \<and> CanPrune env ac tx (visibleFilesMinimaxTxNum agg) = Inr True \<and> prune_ok env
        \<longrightarrow> (\<exists>s. r = Inr (Some s, None)))"
proof -
  let ?m = "visibleFilesMinimaxTxNum agg"
  let ?step = "if ?m > 0 then (?m - 1) div aggregationStep agg else 0"
  let ?b = "if limit = 0 then 18446744073709551615 else limit"
  let ?pre = "ac_a ac \<noteq> None \<and> (\<forall>k. ac_d ac k \<noteq> None) \<and> ?m \<noteq> 0 \<and> aggregationStep agg \<noteq> 0
        \<and> CanPrune env ac tx ?m = Inr True \<and> prune_ok env"
  define D where "D = concat (map (\<lambda>p. case p of None \<Rightarrow> []
                | Some dt \<Rightarrow> [DomainPrune (d_handle dt) ?step 0 ?m ?b]) (map (ac_d ac) DomainLen))"
  define I where
    "I = map (\<lambda>ii. IndexPrune (ii_handle ii) 0 ?m ?b) (map (ac_iis ac) StandaloneIdxLen)"
  define A where "A = map (\<lambda>ap. AppendablePrune (ap_handle ap) 0 ?m ?b) (ac_appendable ac)"
  have all: "Prune_calls ac agg limit = D @ I @ A"
    by (simp add: Prune_calls_def Let_def comp_def D_def I_def A_def)
  have nn: "None \<notin> set (map (ac_d ac) DomainLen)" if "\<forall>k. ac_d ac k \<noteq> None"
    using that by (metis imageE list.set_map)
  from Prune_shape [OF run] show ?thesis
  proof (elim disjE exE conjE)
    assume "calls = []" "\<forall>s. r \<noteq> Inr (Some s, None)"
      "\<not> (ac_a ac \<noteq> None \<and> ?m \<noteq> 0 \<and> aggregationStep agg \<noteq> 0
          \<and> CanPrune env ac tx ?m = Inr True)"
    then show ?thesis by blast
  next
    fix r1 st1 tx1 calls1
    assume d: "Prune_domains env ?step 0 ?m ?b (map (ac_d ac) DomainLen) newAggregatorPruneStat tx []
        = (r1, st1, tx1, calls1)"
      and r1: "r1 = Some r" and c: "calls = calls1"
    note dr = Prune_domains_run [OF d, folded D_def]
    from dr obtain rest where "D = calls1 @ rest" by auto
    then have p1: "Prune_calls ac agg limit = calls @ (rest @ I @ A)" unfolding all c by simp
    from dr r1 have p2: "\<forall>s. r \<noteq> Inr (Some s, None)" by blast
    from dr r1 nn have p3: "\<not> ?pre" by auto
    from p1 p2 p3 show ?thesis by blast
  next
    fix r1 st1 tx1 calls1 r2 st2 tx2 calls2
    assume d: "Prune_domains env ?step 0 ?m ?b (map (ac_d ac) DomainLen) newAggregatorPruneStat tx []
        = (r1, st1, tx1, calls1)"
      and r1: "r1 = None"
      and i: "Prune_iis env 0 ?m ?b (map (ac_iis ac) StandaloneIdxLen) [] tx1 calls1
        = (r2, st2, tx2, calls2)"
      and r2: "r2 = Some r" and c: "calls = calls2"
    from Prune_domains_run [OF d, folded D_def] r1 have c1: "calls1 = D" by simp
    note ir = Prune_iis_run [OF i, folded I_def, unfolded c1]
    from ir obtain rest where "D @ I = calls2 @ rest" by auto
    then have p1: "Prune_calls ac agg limit = calls @ (rest @ A)"
      unfolding all c by (metis append.assoc)
    from ir r2 have p2: "\<forall>s. r \<noteq> Inr (Some s, None)" by blast
    from ir r2 have p3: "\<not> ?pre" by auto
    from p1 p2 p3 show ?thesis by blast
  next
    fix r1 st1 tx1 calls1 r2 st2 tx2 calls2 r3 st3 st3'
    assume d: "Prune_domains env ?step 0 ?m ?b (map (ac_d ac) DomainLen) newAggregatorPruneStat tx []
        = (r1, st1, tx1, calls1)"
      and r1: "r1 = None"
      and i: "Prune_iis env 0 ?m ?b (map (ac_iis ac) StandaloneIdxLen) [] tx1 calls1
        = (r2, st2, tx2, calls2)"
      and r2: "r2 = None"
      and a: "Prune_appendable env 0 ?m ?b (ac_appendable ac) st3 tx2 calls2 = (r3, st3', tx', calls)"
      and r3: "r3 = Some r"
    from Prune_domains_run [OF d, folded D_def] r1 have c1: "calls1 = D" by simp
    from Prune_iis_run [OF i, folded I_def] r2 c1 have c2: "calls2 = D @ I" by simp
    note ar = Prune_appendable_run [OF a, folded A_def, unfolded c2]
    from ar obtain rest where "(D @ I) @ A = calls @ rest" by auto
    then have p1: "Prune_calls ac agg limit = calls @ rest" unfolding all by simp
    from ar r3 have p2: "\<forall>s. r \<noteq> Inr (Some s, None)" by blast
    from ar r3 have p3: "\<not> ?pre" by auto
    from p1 p2 p3 show ?thesis by blast
  next
    fix r1 st1 tx1 calls1 r2 st2 tx2 calls2 r3 st3 st3'
    assume d: "Prune_domains env ?step 0 ?m ?b (map (ac_d ac) DomainLen) newAggregatorPruneStat tx []
        = (r1, st1, tx1, calls1)"
      and r1: "r1 = None"
      and i: "Prune_iis env 0 ?m ?b (map (ac_iis ac) StandaloneIdxLen) [] tx1 calls1
        = (r2, st2, tx2, calls2)"
      and r2: "r2 = None"
      and a: "Prune_appendable env 0 ?m ?b (ac_appendable ac) st3 tx2 calls2 = (r3, st3', tx', calls)"
      and r3: "r3 = None" and r: "r = Inr (Some st3', None)"
    from Prune_domains_run [OF d, folded D_def] r1 have c1: "calls1 = D" by simp
    from Prune_iis_run [OF i, folded I_def] r2 c1 have c2: "calls2 = D @ I" by simp
    from Prune_appendable_run [OF a, folded A_def, unfolded c2] r3
    have "calls = (D @ I) @ A" by simp
    then have p1: "calls = Prune_calls ac agg limit" unfolding all by simp
    from p1 r show ?thesis by simp
  qed
qed

text \<open>
  Claim C2, as amended.  For every call \<^verbatim>\<open>Prune(ctx, tx, limit, logEvery)\<close>: every component
  \<^verbatim>\<open>Prune\<close> it makes (domain, index or appendable) gets the range from 0 to
  \<^verbatim>\<open>visibleFilesMinimaxTxNum\<close> and, as its key bound, \<open>limit\<close>, or the largest 64-bit value
  when \<open>limit\<close> is 0.  When that boundary is 0, or when no component reports prunable data
  (and the step size is not 0), the call returns \<open>(nil, nil)\<close>, makes no component call and
  leaves the transaction as it was.  If the component methods delete nothing at or above
  the \<open>txTo\<close> they are given, then \<^verbatim>\<open>Prune\<close> leaves everything at or above the boundary in
  place.  The boundary an aggregator holds after \<^verbatim>\<open>recalcVisibleFilesMinimaxTxNum\<close> is the
  minimum of the ends of the visible files of the Accounts, Code, Storage and Commitment
  domains in the view taken there.  The calls are made: the calls of any run are the first
  calls of \<open>Prune_calls\<close> (each domain once with the step of the boundary, then each index
  once, then each appendable once, with that range and bound), in that order; a run that
  returns statistics and no error has made all of them; and a run on an open view with all
  its domain handles, a boundary and a step size that are not 0, a component reporting
  prunable data and no component \<^verbatim>\<open>Prune\<close> returning an error does return statistics and no
  error.
\<close>

theorem Prune_boundary:
  assumes run: "Prune env ac agg tx limit = (r, tx', calls)"
  shows "(\<forall>c \<in> set calls. call_txFrom c = 0 \<and> call_txTo c = visibleFilesMinimaxTxNum agg
            \<and> call_limit c = (if limit = 0 then 18446744073709551615 else limit))
   \<and> (ac_a ac \<noteq> None \<and> visibleFilesMinimaxTxNum agg = 0 \<longrightarrow>
         r = Inr (None, None) \<and> tx' = tx \<and> calls = [])
   \<and> (ac_a ac \<noteq> None \<and> aggregationStep agg \<noteq> 0
        \<and> CanPrune env ac tx (visibleFilesMinimaxTxNum agg) = Inr False \<longrightarrow>
         r = Inr (None, None) \<and> tx' = tx \<and> calls = [])
   \<and> (prune_within rows_from env \<longrightarrow>
         rows_from (visibleFilesMinimaxTxNum agg) tx' = rows_from (visibleFilesMinimaxTxNum agg) tx)
   \<and> (\<forall>agg0 aggTx. recalcVisibleFilesMinimaxTxNum agg0 aggTx = Inr agg \<longrightarrow>
         (\<exists>da dc ds dm. ac_d aggTx AccountsDomain = Some da \<and> ac_d aggTx CodeDomain = Some dc
            \<and> ac_d aggTx StorageDomain = Some ds \<and> ac_d aggTx CommitmentDomain = Some dm
            \<and> visibleFilesMinimaxTxNum agg =
                min (min (min (files_EndTxNum da) (files_EndTxNum dc)) (files_EndTxNum ds))
                  (files_EndTxNum dm)))
   \<and> (\<exists>rest. Prune_calls ac agg limit = calls @ rest)
   \<and> ((\<exists>s. r = Inr (Some s, None)) \<longrightarrow> calls = Prune_calls ac agg limit)
   \<and> (ac_a ac \<noteq> None \<and> (\<forall>k. ac_d ac k \<noteq> None) \<and> visibleFilesMinimaxTxNum agg \<noteq> 0
        \<and> aggregationStep agg \<noteq> 0
        \<and> CanPrune env ac tx (visibleFilesMinimaxTxNum agg) = Inr True \<and> prune_ok env
        \<longrightarrow> (\<exists>s. r = Inr (Some s, None)))"
proof (intro conjI)
  let ?m = "visibleFilesMinimaxTxNum agg"
  note shape = Prune_cases [OF run]
  show "\<forall>c \<in> set calls. call_txFrom c = 0 \<and> call_txTo c = ?m
            \<and> call_limit c = (if limit = 0 then 18446744073709551615 else limit)"
    using shape
    by (elim disjE exE conjE)
       (auto dest!: Prune_domains_calls Prune_iis_calls Prune_appendable_calls)
  show "ac_a ac \<noteq> None \<and> ?m = 0 \<longrightarrow> r = Inr (None, None) \<and> tx' = tx \<and> calls = []"
    using run by (auto simp: Prune_def Let_def split: if_splits)
  show "ac_a ac \<noteq> None \<and> aggregationStep agg \<noteq> 0 \<and> CanPrune env ac tx ?m = Inr False \<longrightarrow>
         r = Inr (None, None) \<and> tx' = tx \<and> calls = []"
    using run by (auto simp: Prune_def Let_def split: if_splits)
  show "prune_within rows_from env \<longrightarrow> rows_from ?m tx' = rows_from ?m tx"
  proof
    assume pw: "prune_within rows_from env"
    from shape show "rows_from ?m tx' = rows_from ?m tx"
      by (elim disjE exE conjE)
         (auto dest!: Prune_domains_frame [OF pw] Prune_iis_frame [OF pw]
            Prune_appendable_frame [OF pw])
  qed
  show "\<forall>agg0 aggTx. recalcVisibleFilesMinimaxTxNum agg0 aggTx = Inr agg \<longrightarrow>
         (\<exists>da dc ds dm. ac_d aggTx AccountsDomain = Some da \<and> ac_d aggTx CodeDomain = Some dc
            \<and> ac_d aggTx StorageDomain = Some ds \<and> ac_d aggTx CommitmentDomain = Some dm
            \<and> visibleFilesMinimaxTxNum agg =
                min (min (min (files_EndTxNum da) (files_EndTxNum dc)) (files_EndTxNum ds))
                  (files_EndTxNum dm))"
    by (auto simp: recalcVisibleFilesMinimaxTxNum_def minimaxTxNumInDomainFiles_def
        split: sum.splits option.splits)
  note made = Prune_calls_made [OF run]
  show "\<exists>rest. Prune_calls ac agg limit = calls @ rest"
    using made [THEN conjunct1] .
  show "(\<exists>s. r = Inr (Some s, None)) \<longrightarrow> calls = Prune_calls ac agg limit"
    using made [THEN conjunct2, THEN conjunct1] .
  show "ac_a ac \<noteq> None \<and> (\<forall>k. ac_d ac k \<noteq> None) \<and> visibleFilesMinimaxTxNum agg \<noteq> 0
        \<and> aggregationStep agg \<noteq> 0
        \<and> CanPrune env ac tx (visibleFilesMinimaxTxNum agg) = Inr True \<and> prune_ok env
        \<longrightarrow> (\<exists>s. r = Inr (Some s, None))"
    using made [THEN conjunct2, THEN conjunct2] .
qed

text \<open>
  A hot store for the examples: rows \<open>(handle, txNum)\<close>.  Modelled from the spec: the
  component \<^verbatim>\<open>Prune\<close> methods (declared outside the embedded sources) delete hot-store rows
  of their component with \<open>txFrom \<le> txNum < txTo\<close>, at most \<open>limit\<close> of them per call.
\<close>

definition rows_prune :: "nat \<Rightarrow> (nat \<times> u64) list \<Rightarrow> u64 \<Rightarrow> u64 \<Rightarrow> u64 \<Rightarrow> (nat \<times> u64) list" where
  "rows_prune h rows txFrom txTo limit =
    (let victims = take (unat limit)
           (filter (\<lambda>(h', n). h' = h \<and> txFrom \<le> n \<and> n < txTo) rows)
     in filter (\<lambda>row. row \<notin> set victims) rows)"

definition rows_above :: "u64 \<Rightarrow> (nat \<times> u64) list \<Rightarrow> (nat \<times> u64) list" where
  "rows_above t rows = filter (\<lambda>(h, n). t \<le> n) rows"

definition env1 :: "((nat \<times> u64) list, unit, unit, unit) prune_env" where
  "env1 = \<lparr> NoPrune = False,
            CanPruneUntil = (\<lambda>dt rows untilTx. list_ex (\<lambda>(h, n). h = d_handle dt \<and> n < untilTx) rows),
            iiCanPrune = (\<lambda>ii rows. list_ex (\<lambda>(h, n). h = ii_handle ii) rows),
            dPrune = (\<lambda>dt rows step txFrom txTo limit.
                        ((Some (), None), rows_prune (d_handle dt) rows txFrom txTo limit)),
            iiPrune = (\<lambda>ii rows txFrom txTo limit.
                        ((Some (), None), rows_prune (ii_handle ii) rows txFrom txTo limit)),
            apPrune = (\<lambda>ap rows txFrom txTo limit.
                        ((Some (), None), rows_prune (ap_handle ap) rows txFrom txTo limit)) \<rparr>"

lemma rows_prune_above: "rows_above t (rows_prune h rows f t l) = rows_above t rows"
proof -
  let ?victims = "take (unat l) (filter (\<lambda>(h', n). h' = h \<and> f \<le> n \<and> n < t) rows)"
  have "set ?victims \<subseteq> {row. snd row < t}"
    using set_take_subset [of "unat l" "filter (\<lambda>(h', n). h' = h \<and> f \<le> n \<and> n < t) rows"]
    by auto
  then have "\<And>row. t \<le> snd row \<Longrightarrow> row \<notin> set ?victims" by auto
  then show ?thesis
    unfolding rows_above_def rows_prune_def Let_def filter_filter
    by (intro filter_cong) auto
qed

lemma env1_within: "prune_within rows_above env1"
  by (simp add: prune_within_def env1_def rows_prune_above)

text \<open>
  Visible files ending at 300 (Accounts), 100 (Storage), 200 (Code) and 400 (Commitment):
  the boundary is 100.  A call with \<open>limit = 0\<close> prunes the rows below 100 and keeps the rows
  at 100 and 150; every component is called with the range from 0 to 100 and the bound
  18446744073709551615.
\<close>

definition ac1 :: AggregatorRoTx where
  "ac1 = ac0 \<lparr> ac_d := (\<lambda>n. map_option (\<lambda>dt. dt \<lparr> files_EndTxNum :=
                    (case n of AccountsDomain \<Rightarrow> 300 | StorageDomain \<Rightarrow> 100
                     | CodeDomain \<Rightarrow> 200 | CommitmentDomain \<Rightarrow> 400) \<rparr>) (ac_d ac0 n)) \<rparr>"

definition agg1 :: Aggregator where
  "agg1 = \<lparr> aggregationStep = 100, visibleFilesMinimaxTxNum = 100 \<rparr>"

definition rows1 :: "(nat \<times> u64) list" where
  "rows1 = [(10, 5), (10, 150), (30, 99), (30, 100), (13, 0)]"

lemma agg1_recalc:
  "recalcVisibleFilesMinimaxTxNum \<lparr> aggregationStep = 100, visibleFilesMinimaxTxNum = 0 \<rparr> ac1
     = Inr agg1"
  by (simp add: recalcVisibleFilesMinimaxTxNum_def minimaxTxNumInDomainFiles_def ac1_def ac0_def
      agg1_def)

lemma Prune_run1_domains:
  "Prune_domains env1 0 0 100 18446744073709551615 (map (ac_d ac1) DomainLen)
     newAggregatorPruneStat rows1 []
   = (None,
      \<lparr> Domains = [''accounts'' \<mapsto> Some (), ''storage'' \<mapsto> Some (),
                    ''code'' \<mapsto> Some (), ''commitment'' \<mapsto> Some ()],
        Indices = Map.empty, Appendable = Map.empty \<rparr>,
      [(10, 150), (30, 99), (30, 100)],
      [DomainPrune 10 0 0 100 18446744073709551615, DomainPrune 11 0 0 100 18446744073709551615,
       DomainPrune 12 0 0 100 18446744073709551615, DomainPrune 13 0 0 100 18446744073709551615])"
  by (simp add: DomainLen_def env1_def ac1_def ac0_def rows1_def rows_prune_def
      newAggregatorPruneStat_def Let_def)

lemma Prune_run1_iis:
  "Prune_iis env1 0 100 18446744073709551615 (map (ac_iis ac1) StandaloneIdxLen) []
     [(10, 150), (30, 99), (30, 100)]
     [DomainPrune 10 0 0 100 18446744073709551615, DomainPrune 11 0 0 100 18446744073709551615,
      DomainPrune 12 0 0 100 18446744073709551615, DomainPrune 13 0 0 100 18446744073709551615]
   = (None,
      [(''logaddrs'', Some ()), (''logtopics'', Some ()), (''tracesfrom'', Some ()),
       (''tracesto'', Some ())],
      [(10, 150), (30, 100)],
      [DomainPrune 10 0 0 100 18446744073709551615, DomainPrune 11 0 0 100 18446744073709551615,
       DomainPrune 12 0 0 100 18446744073709551615, DomainPrune 13 0 0 100 18446744073709551615,
       IndexPrune 30 0 100 18446744073709551615, IndexPrune 31 0 100 18446744073709551615,
       IndexPrune 32 0 100 18446744073709551615, IndexPrune 33 0 100 18446744073709551615])"
  by (simp add: StandaloneIdxLen_def env1_def ac1_def ac0_def rows_prune_def Let_def)

lemma Prune_run1_can: "CanPrune env1 ac1 rows1 100 = Inr True"
  by (simp add: CanPrune_def DomainLen_def StandaloneIdxLen_def env1_def ac1_def ac0_def
      rows1_def)

lemma Prune_run1:
  "Prune env1 ac1 agg1 rows1 0 =
     (Inr (Some \<lparr> Domains = [''accounts'' \<mapsto> Some (), ''storage'' \<mapsto> Some (),
                               ''code'' \<mapsto> Some (), ''commitment'' \<mapsto> Some ()],
                   Indices = [''logaddrs'' \<mapsto> Some (), ''logtopics'' \<mapsto> Some (),
                               ''tracesfrom'' \<mapsto> Some (), ''tracesto'' \<mapsto> Some ()],
                   Appendable = Map.empty \<rparr>, None),
      [(10, 150), (30, 100)],
      [DomainPrune 10 0 0 100 18446744073709551615, DomainPrune 11 0 0 100 18446744073709551615,
       DomainPrune 12 0 0 100 18446744073709551615, DomainPrune 13 0 0 100 18446744073709551615,
       IndexPrune 30 0 100 18446744073709551615, IndexPrune 31 0 100 18446744073709551615,
       IndexPrune 32 0 100 18446744073709551615, IndexPrune 33 0 100 18446744073709551615])"
proof -
  have facts: "ac_a ac1 = Some 0" "ac_appendable ac1 = []"
    "visibleFilesMinimaxTxNum agg1 = 100" "aggregationStep agg1 = 100"
    by (simp_all add: ac1_def ac0_def agg1_def)
  show ?thesis
    unfolding Prune_def Let_def facts
    by (simp add: Prune_run1_can Prune_run1_domains Prune_run1_iis)
qed

theorem Prune_boundary_witness:
  "Prune env1 ac1 agg1 rows1 0 =
     (Inr (Some \<lparr> Domains = [''accounts'' \<mapsto> Some (), ''storage'' \<mapsto> Some (),
                               ''code'' \<mapsto> Some (), ''commitment'' \<mapsto> Some ()],
                   Indices = [''logaddrs'' \<mapsto> Some (), ''logtopics'' \<mapsto> Some (),
                               ''tracesfrom'' \<mapsto> Some (), ''tracesto'' \<mapsto> Some ()],
                   Appendable = Map.empty \<rparr>, None),
      [(10, 150), (30, 100)],
      [DomainPrune 10 0 0 100 18446744073709551615, DomainPrune 11 0 0 100 18446744073709551615,
       DomainPrune 12 0 0 100 18446744073709551615, DomainPrune 13 0 0 100 18446744073709551615,
       IndexPrune 30 0 100 18446744073709551615, IndexPrune 31 0 100 18446744073709551615,
       IndexPrune 32 0 100 18446744073709551615, IndexPrune 33 0 100 18446744073709551615])
   \<and> rows_above 100 [(10, 150), (30, 100)] = rows_above 100 rows1
   \<and> visibleFilesMinimaxTxNum agg1 = min (min (min 300 200) 100) 400
   \<and> Prune env1 ac1 (agg1 \<lparr> visibleFilesMinimaxTxNum := 0 \<rparr>) rows1 7 = (Inr (None, None), rows1, [])
   \<and> prune_ok env1
   \<and> (\<exists>s. fst (Prune env1 ac1 agg1 rows1 0) = Inr (Some s, None))
   \<and> Prune_calls ac1 agg1 0 =
      [DomainPrune 10 0 0 100 18446744073709551615, DomainPrune 11 0 0 100 18446744073709551615,
       DomainPrune 12 0 0 100 18446744073709551615, DomainPrune 13 0 0 100 18446744073709551615,
       IndexPrune 30 0 100 18446744073709551615, IndexPrune 31 0 100 18446744073709551615,
       IndexPrune 32 0 100 18446744073709551615, IndexPrune 33 0 100 18446744073709551615]"
proof -
  let ?agg0 = "agg1 \<lparr> visibleFilesMinimaxTxNum := 0 \<rparr>"
  have pre0: "ac_a ac1 \<noteq> None \<and> visibleFilesMinimaxTxNum ?agg0 = 0"
    by (simp add: ac1_def ac0_def)
  have m1: "visibleFilesMinimaxTxNum agg1 = 100" by (simp add: agg1_def)
  obtain r tx' calls where run0: "Prune env1 ac1 ?agg0 rows1 7 = (r, tx', calls)"
    using prod_cases3 by blast
  note zero0 = Prune_boundary [OF run0, of rows_above, THEN conjunct2, THEN conjunct1, THEN mp,
      OF pre0]
  from run0 zero0 have zero: "Prune env1 ac1 ?agg0 rows1 7 = (Inr (None, None), rows1, [])"
    by simp
  note B = Prune_boundary [OF Prune_run1, of rows_above]
  note frame = B [THEN conjunct2, THEN conjunct2, THEN conjunct2, THEN conjunct1, THEN mp,
      OF env1_within]
  have keep: "rows_above 100 [(10, 150), (30, 100)] = rows_above 100 rows1"
    using frame unfolding m1 .
  note minimax = B [THEN conjunct2, THEN conjunct2, THEN conjunct2, THEN conjunct2,
      THEN conjunct1, THEN spec, THEN spec, THEN mp, OF agg1_recalc]
  from minimax have mm: "visibleFilesMinimaxTxNum agg1 = min (min (min 300 200) 100) 400"
    by (auto simp: ac1_def ac0_def)
  have ok: "prune_ok env1" by (simp add: prune_ok_def env1_def)
  have pre: "ac_a ac1 \<noteq> None \<and> (\<forall>k. ac_d ac1 k \<noteq> None) \<and> visibleFilesMinimaxTxNum agg1 \<noteq> 0
        \<and> aggregationStep agg1 \<noteq> 0
        \<and> CanPrune env1 ac1 rows1 (visibleFilesMinimaxTxNum agg1) = Inr True \<and> prune_ok env1"
    using ok Prune_run1_can by (simp add: ac1_def ac0_def agg1_def)
  note tail = B [THEN conjunct2, THEN conjunct2, THEN conjunct2, THEN conjunct2, THEN conjunct2]
  from tail [THEN conjunct2, THEN conjunct2, THEN mp, OF pre]
  have stat: "\<exists>s. fst (Prune env1 ac1 agg1 rows1 0) = Inr (Some s, None)"
    unfolding Prune_run1 by simp
  have "\<exists>s. Inr (Some \<lparr> Domains = [''accounts'' \<mapsto> Some (), ''storage'' \<mapsto> Some (),
                               ''code'' \<mapsto> Some (), ''commitment'' \<mapsto> Some ()],
                   Indices = [''logaddrs'' \<mapsto> Some (), ''logtopics'' \<mapsto> Some (),
                               ''tracesfrom'' \<mapsto> Some (), ''tracesto'' \<mapsto> Some ()],
                   Appendable = Map.empty \<rparr>, None)
          = (Inr (Some s, None) :: error + (unit, unit, unit) AggregatorPruneStat option \<times> error option)"
    by blast
  from tail [THEN conjunct2, THEN conjunct1, THEN mp, OF this]
  have calls: "Prune_calls ac1 agg1 0 =
      [DomainPrune 10 0 0 100 18446744073709551615, DomainPrune 11 0 0 100 18446744073709551615,
       DomainPrune 12 0 0 100 18446744073709551615, DomainPrune 13 0 0 100 18446744073709551615,
       IndexPrune 30 0 100 18446744073709551615, IndexPrune 31 0 100 18446744073709551615,
       IndexPrune 32 0 100 18446744073709551615, IndexPrune 33 0 100 18446744073709551615]"
    by (rule sym)
  from Prune_run1 keep mm zero ok stat calls show ?thesis by (intro conjI)
qed

text \<open>
  Claim C2 as stated fails where it says that the components are invoked with the key
  bound \<open>limit\<close>: in the call above \<open>limit\<close> is 0 and every component gets the bound
  18446744073709551615.
\<close>

theorem Prune_limit_counterexample:
  "snd (snd (Prune env1 ac1 agg1 rows1 0)) \<noteq> []
   \<and> \<not> (\<forall>c \<in> set (snd (snd (Prune env1 ac1 agg1 rows1 0))). call_limit c = 0)"
  by (simp add: Prune_run1)

subsection \<open>The salt file\<close>

lemma Uint32_PutUint32: "Uint32 (PutUint32 v) = Inr v"
proof -
  let ?w = "push_bit 24 (ucast (ucast (drop_bit 24 v :: u32) :: 8 word)) OR
            push_bit 16 (ucast (ucast (drop_bit 16 v :: u32) :: 8 word)) OR
            push_bit 8 (ucast (ucast (drop_bit 8 v :: u32) :: 8 word)) OR
            ucast (ucast v :: 8 word) :: u32"
  have "?w = v"
  proof (rule bit_word_eqI)
    fix n
    assume "n < LENGTH(32)"
    then have n: "n < 32" by simp
    consider "n < 8" | "8 \<le> n" "n < 16" | "16 \<le> n" "n < 24" | "24 \<le> n" "n < 32"
      using n by linarith
    then show "bit ?w n = bit v n"
      by cases (auto simp: bit_simps)
  qed
  then show ?thesis by (simp add: PutUint32_def)
qed

lemma salt_paths_differ:
  "filepath_Join baseDir ''salt.txt'' \<noteq> filepath_Join baseDir ''salt-state.txt''"
  by (simp add: filepath_Join_def)

text \<open>The salt file is there: it is read and nothing is written.\<close>

lemma salt_existing:
  assumes "FileExist_err fs (filepath_Join baseDir ''salt.txt'') = None"
    and "FileExist_err fs (filepath_Join baseDir ''salt-state.txt'') = None"
    and "Read_err fs = None"
    and "files fs (filepath_Join baseDir ''salt-state.txt'') = Some content"
  shows "getStateIndicesSalt rnd baseDir fs =
    (case Uint32 content of Inl p \<Rightarrow> (Inl p, fs) | Inr v \<Rightarrow> (Inr (Some v, None), fs))"
  using assms
  by (simp add: getStateIndicesSalt_def FileExist_def os_ReadFile_def split: sum.splits)

text \<open>Only the legacy file is there and the rename succeeds.\<close>

lemma salt_legacy:
  assumes "FileExist_err fs (filepath_Join baseDir ''salt.txt'') = None"
    and "FileExist_err fs (filepath_Join baseDir ''salt-state.txt'') = None"
    and "Read_err fs = None" and "Rename_err fs = None"
    and "files fs (filepath_Join baseDir ''salt-state.txt'') = None"
    and "files fs (filepath_Join baseDir ''salt.txt'') = Some content"
  shows "getStateIndicesSalt rnd baseDir fs =
    (case Uint32 content of
       Inl p \<Rightarrow> (Inl p, fs \<lparr> files := (files fs)(filepath_Join baseDir ''salt.txt'' := None,
                                 filepath_Join baseDir ''salt-state.txt'' \<mapsto> content) \<rparr>)
     | Inr v \<Rightarrow> (Inr (Some v, None),
                 fs \<lparr> files := (files fs)(filepath_Join baseDir ''salt.txt'' := None,
                                 filepath_Join baseDir ''salt-state.txt'' \<mapsto> content) \<rparr>))"
  using assms
  by (simp add: getStateIndicesSalt_def FileExist_def os_ReadFile_def os_Rename_def
      split: sum.splits)

text \<open>No salt file (and no legacy file, or one that could not be renamed): a fresh salt.\<close>

lemma salt_fresh:
  assumes "FileExist_err fs (filepath_Join baseDir ''salt.txt'') = None"
    and "FileExist_err fs (filepath_Join baseDir ''salt-state.txt'') = None"
    and "Read_err fs = None" and "Write_err fs = None"
    and "files fs (filepath_Join baseDir ''salt-state.txt'') = None"
    and "files fs (filepath_Join baseDir ''salt.txt'') = None \<or> Rename_err fs \<noteq> None"
  shows "getStateIndicesSalt rnd baseDir fs =
    (Inr (Some rnd, None),
     fs \<lparr> files := (files fs)(filepath_Join baseDir ''salt-state.txt'' \<mapsto> PutUint32 rnd) \<rparr>)"
  using assms
  by (auto simp: getStateIndicesSalt_def FileExist_def WriteFileWithFsync_def os_ReadFile_def
      os_Rename_def Uint32_PutUint32 Let_def)

text \<open>The errors that are returned.\<close>

lemma salt_exist_errors:
  "(FileExist_err fs (filepath_Join baseDir ''salt.txt'') = Some e \<longrightarrow>
      getStateIndicesSalt rnd baseDir fs = (Inr (None, Some e), fs))
   \<and> (FileExist_err fs (filepath_Join baseDir ''salt.txt'') = None \<and>
       FileExist_err fs (filepath_Join baseDir ''salt-state.txt'') = Some e \<longrightarrow>
      getStateIndicesSalt rnd baseDir fs = (Inr (None, Some e), fs))"
  by (simp add: getStateIndicesSalt_def FileExist_def)

lemma salt_write_error:
  assumes "FileExist_err fs (filepath_Join baseDir ''salt.txt'') = None"
    and "FileExist_err fs (filepath_Join baseDir ''salt-state.txt'') = None"
    and "Write_err fs = Some e"
    and "files fs (filepath_Join baseDir ''salt-state.txt'') = None"
    and "files fs (filepath_Join baseDir ''salt.txt'') = None \<or> Rename_err fs \<noteq> None"
  shows "getStateIndicesSalt rnd baseDir fs = (Inr (None, Some e), fs)"
  using assms
  by (auto simp: getStateIndicesSalt_def FileExist_def WriteFileWithFsync_def os_Rename_def
      Let_def)

lemma salt_read_error:
  assumes "FileExist_err fs (filepath_Join baseDir ''salt.txt'') = None"
    and "FileExist_err fs (filepath_Join baseDir ''salt-state.txt'') = None"
    and "Read_err fs = Some e" and "Write_err fs = None"
  shows "fst (getStateIndicesSalt rnd baseDir fs) = Inr (None, Some e)"
  using assms
  by (auto simp: getStateIndicesSalt_def FileExist_def WriteFileWithFsync_def os_ReadFile_def
      os_Rename_def Let_def split: option.splits)

lemma NewAggregator_salt_error:
  "fst (getStateIndicesSalt rnd (Snap dirs) fs) = Inr (salt, Some e) \<Longrightarrow>
   fst (NewAggregator construct rnd dirs fs) = Inr (None, Some e)"
  by (cases "getStateIndicesSalt rnd (Snap dirs) fs"; cases salt) (simp_all add: NewAggregator_def)

text \<open>
  Claim C7, as amended.  With \<open>salt-state.txt\<close> present under the base directory (or only the
  legacy \<open>salt.txt\<close>, renamed into place), \<^verbatim>\<open>getStateIndicesSalt\<close> returns the big-endian
  \<^verbatim>\<open>uint32\<close> of the first four bytes of a file that has at least four.  With no salt file it
  writes the four big-endian bytes of a random salt and returns the value read back, which
  is that salt.  An error of an existence check, of the write or of the read is returned
  with a \<^verbatim>\<open>nil\<close> salt; the error of the legacy rename is not: it is discarded and the salt is
  generated afresh.  \<^verbatim>\<open>NewAggregator\<close> returns the error of \<^verbatim>\<open>getStateIndicesSalt\<close> with a \<^verbatim>\<open>nil\<close>
  aggregator, whatever the rest of the constructor would have done.
\<close>

theorem getStateIndicesSalt_spec:
  "(FileExist_err fs (filepath_Join baseDir ''salt.txt'') = None
    \<and> FileExist_err fs (filepath_Join baseDir ''salt-state.txt'') = None \<longrightarrow>
      (\<forall>content v.
          Read_err fs = None
          \<and> files fs (filepath_Join baseDir ''salt-state.txt'') = Some content
          \<and> Uint32 content = Inr v \<longrightarrow>
          getStateIndicesSalt rnd baseDir fs = (Inr (Some v, None), fs))
    \<and> (\<forall>content v.
          Read_err fs = None \<and> Rename_err fs = None
          \<and> files fs (filepath_Join baseDir ''salt-state.txt'') = None
          \<and> files fs (filepath_Join baseDir ''salt.txt'') = Some content
          \<and> Uint32 content = Inr v \<longrightarrow>
          getStateIndicesSalt rnd baseDir fs =
            (Inr (Some v, None),
             fs \<lparr> files := (files fs)(filepath_Join baseDir ''salt.txt'' := None,
                      filepath_Join baseDir ''salt-state.txt'' \<mapsto> content) \<rparr>))
    \<and> (Read_err fs = None \<and> Write_err fs = None
          \<and> files fs (filepath_Join baseDir ''salt-state.txt'') = None
          \<and> (files fs (filepath_Join baseDir ''salt.txt'') = None \<or> Rename_err fs \<noteq> None) \<longrightarrow>
          getStateIndicesSalt rnd baseDir fs =
            (Inr (Some rnd, None),
             fs \<lparr> files := (files fs)(filepath_Join baseDir ''salt-state.txt'' \<mapsto>
                      PutUint32 rnd) \<rparr>)
          \<and> Uint32 (PutUint32 rnd) = Inr rnd)
    \<and> (\<forall>e. Write_err fs = Some e
          \<and> files fs (filepath_Join baseDir ''salt-state.txt'') = None
          \<and> (files fs (filepath_Join baseDir ''salt.txt'') = None \<or> Rename_err fs \<noteq> None) \<longrightarrow>
          getStateIndicesSalt rnd baseDir fs = (Inr (None, Some e), fs))
    \<and> (\<forall>e. Read_err fs = Some e \<and> Write_err fs = None \<longrightarrow>
          fst (getStateIndicesSalt rnd baseDir fs) = Inr (None, Some e)))
   \<and> (\<forall>e. FileExist_err fs (filepath_Join baseDir ''salt.txt'') = Some e \<longrightarrow>
          getStateIndicesSalt rnd baseDir fs = (Inr (None, Some e), fs))
   \<and> (\<forall>e. FileExist_err fs (filepath_Join baseDir ''salt.txt'') = None
          \<and> FileExist_err fs (filepath_Join baseDir ''salt-state.txt'') = Some e \<longrightarrow>
          getStateIndicesSalt rnd baseDir fs = (Inr (None, Some e), fs))
   \<and> (\<forall>salt e. fst (getStateIndicesSalt rnd (Snap dirs) fs) = Inr (salt, Some e) \<longrightarrow>
          fst (NewAggregator construct rnd dirs fs) = Inr (None, Some e))"
proof (intro conjI impI allI)
  fix content v
  assume ok: "FileExist_err fs (filepath_Join baseDir ''salt.txt'') = None
    \<and> FileExist_err fs (filepath_Join baseDir ''salt-state.txt'') = None"
  {
    assume "Read_err fs = None
          \<and> files fs (filepath_Join baseDir ''salt-state.txt'') = Some content
          \<and> Uint32 content = Inr v"
    then show "getStateIndicesSalt rnd baseDir fs = (Inr (Some v, None), fs)"
      using ok salt_existing [of fs baseDir content rnd] by simp
  }
  {
    assume "Read_err fs = None \<and> Rename_err fs = None
          \<and> files fs (filepath_Join baseDir ''salt-state.txt'') = None
          \<and> files fs (filepath_Join baseDir ''salt.txt'') = Some content
          \<and> Uint32 content = Inr v"
    then show "getStateIndicesSalt rnd baseDir fs =
            (Inr (Some v, None),
             fs \<lparr> files := (files fs)(filepath_Join baseDir ''salt.txt'' := None,
                      filepath_Join baseDir ''salt-state.txt'' \<mapsto> content) \<rparr>)"
      using ok salt_legacy [of fs baseDir content rnd] by simp
  }
next
  assume ok: "FileExist_err fs (filepath_Join baseDir ''salt.txt'') = None
    \<and> FileExist_err fs (filepath_Join baseDir ''salt-state.txt'') = None"
  assume "Read_err fs = None \<and> Write_err fs = None
          \<and> files fs (filepath_Join baseDir ''salt-state.txt'') = None
          \<and> (files fs (filepath_Join baseDir ''salt.txt'') = None \<or> Rename_err fs \<noteq> None)"
  then show "getStateIndicesSalt rnd baseDir fs =
            (Inr (Some rnd, None),
             fs \<lparr> files := (files fs)(filepath_Join baseDir ''salt-state.txt'' \<mapsto>
                      PutUint32 rnd) \<rparr>)"
    using ok salt_fresh [of fs baseDir rnd] by blast
next
  show "Uint32 (PutUint32 rnd) = Inr rnd" by (rule Uint32_PutUint32)
next
  fix e
  assume ok: "FileExist_err fs (filepath_Join baseDir ''salt.txt'') = None
    \<and> FileExist_err fs (filepath_Join baseDir ''salt-state.txt'') = None"
  {
    assume "Write_err fs = Some e
          \<and> files fs (filepath_Join baseDir ''salt-state.txt'') = None
          \<and> (files fs (filepath_Join baseDir ''salt.txt'') = None \<or> Rename_err fs \<noteq> None)"
    then show "getStateIndicesSalt rnd baseDir fs = (Inr (None, Some e), fs)"
      using ok salt_write_error [of fs baseDir e rnd] by blast
  }
  {
    assume "Read_err fs = Some e \<and> Write_err fs = None"
    then show "fst (getStateIndicesSalt rnd baseDir fs) = Inr (None, Some e)"
      using ok salt_read_error [of fs baseDir e rnd] by blast
  }
next
  fix e
  {
    assume "FileExist_err fs (filepath_Join baseDir ''salt.txt'') = Some e"
    then show "getStateIndicesSalt rnd baseDir fs = (Inr (None, Some e), fs)"
      using salt_exist_errors [of fs baseDir e rnd] by blast
  }
  {
    assume "FileExist_err fs (filepath_Join baseDir ''salt.txt'') = None
          \<and> FileExist_err fs (filepath_Join baseDir ''salt-state.txt'') = Some e"
    then show "getStateIndicesSalt rnd baseDir fs = (Inr (None, Some e), fs)"
      using salt_exist_errors [of fs baseDir e rnd] by blast
  }
next
  fix salt e
  assume "fst (getStateIndicesSalt rnd (Snap dirs) fs) = Inr (salt, Some e)"
  then show "fst (NewAggregator construct rnd dirs fs) = Inr (None, Some e)"
    by (rule NewAggregator_salt_error)
qed

text \<open>
  A directory holding the salt file with the bytes 1, 2, 3, 4, 5: the salt is 0x01020304,
  nothing is written.  An empty directory: the random salt 7 is written as 0, 0, 0, 7 and
  returned.  A directory whose existence check fails: \<^verbatim>\<open>NewAggregator\<close> returns that error.
\<close>

definition fs_ok :: "(string \<rightharpoonup> bytes) \<Rightarrow> salt_fs" where
  "fs_ok fl = \<lparr> files = fl, FileExist_err = (\<lambda>p. None), Rename_err = None, Write_err = None,
                Read_err = None \<rparr>"

lemma Uint32_example: "Uint32 [1, 2, 3, 4, 5] = Inr 16909060"
  by simp

lemma PutUint32_example: "PutUint32 7 = [0, 0, 0, 7]"
  by (simp add: PutUint32_def drop_bit_eq_div)

theorem getStateIndicesSalt_spec_witness:
  "getStateIndicesSalt 7 ''/snapshots'' (fs_ok [''/snapshots/salt-state.txt'' \<mapsto> [1, 2, 3, 4, 5]])
     = (Inr (Some 16909060, None), fs_ok [''/snapshots/salt-state.txt'' \<mapsto> [1, 2, 3, 4, 5]])
   \<and> getStateIndicesSalt 7 ''/snapshots'' (fs_ok Map.empty)
     = (Inr (Some 7, None), fs_ok [''/snapshots/salt-state.txt'' \<mapsto> [0, 0, 0, 7]])
   \<and> fst (NewAggregator (\<lambda>salt fs. (Some salt, None)) 7
            \<lparr> SnapDomain = ''/snapshots/domain'', Snap = ''/snapshots'', Tmp = ''/tmp'' \<rparr>
            ((fs_ok Map.empty) \<lparr> FileExist_err := (\<lambda>p. Some (Ext ''stat: input/output error'')) \<rparr>))
     = Inr (None, Some (Ext ''stat: input/output error''))"
proof -
  let ?fs1 = "fs_ok [''/snapshots/salt-state.txt'' \<mapsto> [1, 2, 3, 4, 5]]"
  let ?fs3 = "(fs_ok Map.empty) \<lparr> FileExist_err := (\<lambda>p. Some (Ext ''stat: input/output error'')) \<rparr>"
  let ?dirs = "\<lparr> SnapDomain = ''/snapshots/domain'', Snap = ''/snapshots'', Tmp = ''/tmp'' \<rparr>"
  have a: "getStateIndicesSalt 7 ''/snapshots'' ?fs1 = (Inr (Some 16909060, None), ?fs1)"
    using getStateIndicesSalt_spec [of ?fs1 "''/snapshots''" 7 ?dirs "\<lambda>salt fs. (Some salt, None)"]
      Uint32_example
    by (simp add: fs_ok_def filepath_Join_def)
  have b: "getStateIndicesSalt 7 ''/snapshots'' (fs_ok Map.empty)
     = (Inr (Some 7, None), fs_ok [''/snapshots/salt-state.txt'' \<mapsto> [0, 0, 0, 7]])"
    using getStateIndicesSalt_spec [of "fs_ok Map.empty" "''/snapshots''" 7 ?dirs
        "\<lambda>salt fs. (Some salt, None)"] PutUint32_example
    by (simp add: fs_ok_def filepath_Join_def)
  have "getStateIndicesSalt 7 (Snap ?dirs) ?fs3 = (Inr (None, Some (Ext ''stat: input/output error'')), ?fs3)"
    using getStateIndicesSalt_spec [of ?fs3 "''/snapshots''" 7 ?dirs "\<lambda>salt fs. (Some salt, None)"]
    by (simp add: fs_ok_def)
  then have c: "fst (NewAggregator (\<lambda>salt fs. (Some salt, None)) 7 ?dirs ?fs3)
     = Inr (None, Some (Ext ''stat: input/output error''))"
    using getStateIndicesSalt_spec [of ?fs3 "''/snapshots''" 7 ?dirs "\<lambda>salt fs. (Some salt, None)"]
    by simp
  from a b c show ?thesis by (intro conjI)
qed

text \<open>
  Claim C7 as stated fails where it says that any file-system error is returned.  With a
  legacy \<open>salt.txt\<close> that cannot be renamed, \<^verbatim>\<open>os.Rename\<close> fails and the function returns no
  error: it writes and returns the fresh salt 7 and leaves the legacy file in place.
\<close>

definition fs_norename :: salt_fs where
  "fs_norename = (fs_ok [''/snapshots/salt.txt'' \<mapsto> [1, 2, 3, 4]])
     \<lparr> Rename_err := Some (Ext ''rename: operation not permitted'') \<rparr>"

theorem getStateIndicesSalt_rename_counterexample:
  "fst (os_Rename fs_norename ''/snapshots/salt.txt'' ''/snapshots/salt-state.txt'')
     = Some (Ext ''rename: operation not permitted'')
   \<and> fst (getStateIndicesSalt 7 ''/snapshots'' fs_norename) = Inr (Some 7, None)
   \<and> files (snd (getStateIndicesSalt 7 ''/snapshots'' fs_norename)) ''/snapshots/salt.txt''
       = Some [1, 2, 3, 4]"
proof -
  have "getStateIndicesSalt 7 ''/snapshots'' fs_norename =
    (Inr (Some 7, None),
     fs_norename \<lparr> files := (files fs_norename)(filepath_Join ''/snapshots'' ''salt-state.txt'' \<mapsto>
         PutUint32 7) \<rparr>)"
    by (rule salt_fresh) (simp_all add: fs_norename_def fs_ok_def filepath_Join_def)
  then show ?thesis
    by (simp add: os_Rename_def fs_norename_def fs_ok_def filepath_Join_def)
qed

subsection \<open>Squeezing: what is written, and what an error leaves behind\<close>

text \<open>
  How an input pair with a non-\<^verbatim>\<open>nil\<close> key relates to the pair written for it: the key is the
  same; the sentinel's value is the same; any other value is the transformer's result.
\<close>

definition squeezed_pair ::
  "squeeze_env \<Rightarrow> filesItem \<Rightarrow> filesItem \<Rightarrow> slice \<times> slice \<Rightarrow> slice \<times> slice \<Rightarrow> bool" where
  "squeezed_pair env af sf kv kv' =
    (fst kv' = fst kv \<and>
     (if fst kv = Some (keyCommitmentState env) then snd kv' = snd kv
      else vt env af sf (snd kv) (startTxNum af) (endTxNum af) = Inr (snd kv')))"

lemma squeeze_words_written:
  "squeeze_words env fs tmp af sf kvs out = Inr out' \<Longrightarrow>
   \<exists>new. out' = out @ new
     \<and> list_all2 (squeezed_pair env af sf) (filter (\<lambda>kv. fst kv \<noteq> None) kvs) new
     \<and> (\<forall>n. 2 * length out \<le> n \<and> n < 2 * length out' \<longrightarrow> AddWord_err fs tmp n = None)"
proof (induction kvs arbitrary: out)
  case Nil
  then show ?case by auto
next
  case (Cons kv kvs)
  obtain k v where kv: "kv = (k, v)" by (cases kv)
  show ?case
  proof (cases k)
    case None
    with Cons kv show ?thesis by simp
  next
    case (Some kb)
    let ?r = "if kb \<noteq> keyCommitmentState env
              then vt env af sf v (startTxNum af) (endTxNum af) else Inr v"
    from Cons.prems kv Some obtain v' where r: "?r = Inr v'"
      by (cases ?r) (simp_all del: if_split)
    from Cons.prems kv Some r
    have w0: "AddWord_err fs tmp (2 * length out) = None"
      and w1: "AddWord_err fs tmp (2 * length out + 1) = None"
      and rest: "squeeze_words env fs tmp af sf kvs (out @ [(k, v')]) = Inr out'"
      by (simp_all del: if_split split: option.splits)
    from Cons.IH [OF rest] obtain new where new: "out' = (out @ [(k, v')]) @ new"
      and rel: "list_all2 (squeezed_pair env af sf) (filter (\<lambda>kv. fst kv \<noteq> None) kvs) new"
      and wr: "\<forall>n. 2 * length (out @ [(k, v')]) \<le> n \<and> n < 2 * length out' \<longrightarrow>
                 AddWord_err fs tmp n = None"
      by blast
    have pair: "squeezed_pair env af sf (k, v) (k, v')"
      using r Some by (auto simp: squeezed_pair_def split: if_splits)
    have "\<forall>n. 2 * length out \<le> n \<and> n < 2 * length out' \<longrightarrow> AddWord_err fs tmp n = None"
    proof (intro allI impI)
      fix n
      assume n: "2 * length out \<le> n \<and> n < 2 * length out'"
      consider "n = 2 * length out" | "n = 2 * length out + 1"
        | "2 * length (out @ [(k, v')]) \<le> n"
        using n by fastforce
      then show "AddWord_err fs tmp n = None"
        using w0 w1 wr n by cases auto
    qed
    with new rel pair kv Some show ?thesis by auto
  qed
qed

lemma squeeze_words_transform_fails:
  assumes "(Some kb, v) \<in> set kvs" and "kb \<noteq> keyCommitmentState env"
    and "vt env af sf v (startTxNum af) (endTxNum af) = Inl e"
  shows "\<exists>err. squeeze_words env fs tmp af sf kvs out = Inl err"
proof (cases "squeeze_words env fs tmp af sf kvs out")
  case (Inl err)
  then show ?thesis by blast
next
  case (Inr out')
  from squeeze_words_written [OF Inr] obtain new where
    rel: "list_all2 (squeezed_pair env af sf) (filter (\<lambda>kv. fst kv \<noteq> None) kvs) new"
    by blast
  from assms(1) have "(Some kb, v) \<in> set (filter (\<lambda>kv. fst kv \<noteq> None) kvs)" by simp
  then obtain i where i: "i < length (filter (\<lambda>kv. fst kv \<noteq> None) kvs)"
    "filter (\<lambda>kv. fst kv \<noteq> None) kvs ! i = (Some kb, v)"
    by (meson in_set_conv_nth)
  from list_all2_nthD [OF rel i(1)] i(2) assms(2,3) show ?thesis
    by (simp add: squeezed_pair_def)
qed

lemma seg_Rename_frame:
  "seg_Rename fs old new = (r, fs') \<Longrightarrow> p \<noteq> old \<Longrightarrow> p \<noteq> new \<Longrightarrow> segs fs' p = segs fs p"
  by (auto simp: seg_Rename_def split: option.splits)

lemma squeeze_file_frame:
  assumes "squeeze_file env stepSize cf af sf (fs, tf, ob) = (r, fs', tf', ob')"
    and "p \<noteq> FilePath cf @ sqExt" and "p \<noteq> FilePath cf @ sqExt @ ''.tmp''"
  shows "segs fs' p = segs fs p"
proof -
  let ?tmp = "FilePath cf @ sqExt @ ''.tmp''"
  show ?thesis
  proof (cases "NewCompressor_err fs ?tmp")
    case (Some e)
    with assms(1) show ?thesis by (simp add: squeeze_file_def)
  next
    case None
    note nc = None
    show ?thesis
    proof (cases "squeeze_words env fs ?tmp af sf (words cf) []")
      case (Inl e)
      with assms(1) nc show ?thesis by (simp add: squeeze_file_def)
    next
      case (Inr out)
      show ?thesis
      proof (cases "Compress_err fs ?tmp")
        case (Some e)
        with assms(1) nc Inr show ?thesis by (simp add: squeeze_file_def)
      next
        case None
        let ?fs1 = "fs \<lparr> segs := (segs fs)(?tmp \<mapsto> out) \<rparr>"
        obtain rr fs2 where rn: "seg_Rename ?fs1 ?tmp (FilePath cf @ sqExt) = (rr, fs2)"
          by (metis surj_pair)
        from seg_Rename_frame [OF rn assms(3) assms(2)] assms(3)
        have fr: "segs fs2 p = segs fs p" by simp
        from assms(1) nc Inr None rn have "fs' = fs2"
          by (auto simp: squeeze_file_def Let_def split: option.splits if_splits)
        with fr show ?thesis by simp
      qed
    qed
  qed
qed

lemma squeeze_all_frame:
  "squeeze_all env stepSize accountFiles storageFiles cfs (fs, tf, ob) = (r, fs', tf', ob') \<Longrightarrow>
   \<forall>cf \<in> set cfs. p \<noteq> FilePath cf @ sqExt \<and> p \<noteq> FilePath cf @ sqExt @ ''.tmp'' \<Longrightarrow>
   segs fs' p = segs fs p"
proof (induction cfs arbitrary: fs tf ob)
  case Nil
  then show ?case by simp
next
  case (Cons cf cfs)
  show ?case
  proof (cases "find (same_range cf) accountFiles")
    case None
    with Cons show ?thesis by simp
  next
    case (Some af)
    note a = Some
    show ?thesis
    proof (cases "find (same_range cf) storageFiles")
      case None
      with Cons a show ?thesis by simp
    next
      case (Some sf)
      obtain r1 fs1 tf1 ob1 where
        sq: "squeeze_file env stepSize cf af sf (fs, tf, ob) = (r1, fs1, tf1, ob1)"
        by (metis surj_pair)
      from squeeze_file_frame [OF sq] Cons.prems(2) have fr: "segs fs1 p = segs fs p" by simp
      show ?thesis
      proof (cases r1)
        case None
        with Cons.prems(1) a Some sq
        have "squeeze_all env stepSize accountFiles storageFiles cfs (fs1, tf1, ob1)
                = (r, fs', tf', ob')" by simp
        from Cons.IH [OF this] Cons.prems(2) fr show ?thesis by simp
      next
        case (Some e)
        with Cons.prems(1) a \<open>find (same_range cf) storageFiles = Some sf\<close> sq fr
        show ?thesis by simp
      qed
    qed
  qed
qed

lemma squeeze_file_ok_words:
  "squeeze_file env stepSize cf af sf (fs, tf, ob) = (None, st') \<Longrightarrow>
   \<exists>out. squeeze_words env fs (FilePath cf @ sqExt @ ''.tmp'') af sf (words cf) [] = Inr out"
  by (cases "squeeze_words env fs (FilePath cf @ sqExt @ ''.tmp'') af sf (words cf) []")
     (auto simp: squeeze_file_def Let_def split: option.splits)

lemma squeeze_all_ok_files:
  "squeeze_all env stepSize accountFiles storageFiles cfs st = (None, st') \<Longrightarrow>
   cf \<in> set cfs \<Longrightarrow> find (same_range cf) accountFiles = Some af \<Longrightarrow>
   find (same_range cf) storageFiles = Some sf \<Longrightarrow>
   \<exists>st0 st1. squeeze_file env stepSize cf af sf st0 = (None, st1)"
proof (induction cfs arbitrary: st)
  case Nil
  then show ?case by simp
next
  case (Cons c cfs)
  show ?case
  proof (cases "cf = c")
    case True
    obtain r1 st1 where sq: "squeeze_file env stepSize c af sf st = (r1, st1)"
      by (metis surj_pair)
    from Cons.prems(1,3,4) True sq have "r1 = None" by (auto split: option.splits)
    with sq True show ?thesis by blast
  next
    case False
    with Cons.prems(2) have mem: "cf \<in> set cfs" by simp
    from Cons.prems(1) obtain st1 where
      "squeeze_all env stepSize accountFiles storageFiles cfs st1 = (None, st')"
      by (auto split: option.splits prod.splits)
    from Cons.IH [OF this mem Cons.prems(3,4)] show ?thesis .
  qed
qed

lemma squeeze_file_ok:
  assumes "squeeze_file env stepSize cf af sf (fs, tf, ob) = (None, fs', tf', ob')"
  shows "\<exists>out. segs fs' (FilePath cf @ sqExt) = Some out
          \<and> squeeze_words env fs (FilePath cf @ sqExt @ ''.tmp'') af sf (words cf) [] = Inr out"
proof -
  let ?tmp = "FilePath cf @ sqExt @ ''.tmp''"
  from squeeze_file_ok_words [OF assms] obtain out where
    w: "squeeze_words env fs ?tmp af sf (words cf) [] = Inr out" by blast
  have nc: "NewCompressor_err fs ?tmp = None"
    using assms by (cases "NewCompressor_err fs ?tmp") (simp_all add: squeeze_file_def)
  have cc: "Compress_err fs ?tmp = None"
    using assms nc w by (cases "Compress_err fs ?tmp") (simp_all add: squeeze_file_def)
  let ?fs1 = "fs \<lparr> segs := (segs fs)(?tmp \<mapsto> out) \<rparr>"
  obtain rr fs2 where rn: "seg_Rename ?fs1 ?tmp (FilePath cf @ sqExt) = (rr, fs2)"
    by (metis surj_pair)
  from assms nc w cc rn have "rr = None \<and> fs' = fs2"
    by (auto simp: squeeze_file_def Let_def split: option.splits if_splits)
  with rn have "segs fs' (FilePath cf @ sqExt) = Some out"
    by (auto simp: seg_Rename_def split: option.splits)
  with w show ?thesis by blast
qed

text \<open>
  Claim C5, as amended.  (1) When the closure run for a commitment file succeeds, the
  squeezed file \<open><original>.squeezed\<close> holds exactly one pair for each pair of the original
  whose key is not \<^verbatim>\<open>nil\<close>, in order and with the same key: the value is unchanged for the
  sentinel \<^verbatim>\<open>keyCommitmentState\<close> and is the transformer's result for every other key; pairs
  with a \<^verbatim>\<open>nil\<close> key are left out; and no write failed.  (2) When the loop over the files ends
  with an error (from the transformer, a write, the compressor, the rename of the temporary
  file or \<^verbatim>\<open>os.Stat\<close>), \<^verbatim>\<open>SqueezeCommitmentFiles\<close> returns that error, and every path other
  than the \<open>.squeezed\<close> and \<open>.squeezed.tmp\<close> paths of the commitment files holds what it held
  before: nothing was removed and nothing renamed over an original.  (3) In particular this
  is what happens when the transformer fails on a pair of a file that is processed.
\<close>

theorem SqueezeCommitmentFiles_spec:
  "(\<forall>cf af sf tf ob fs' tf' ob'.
      squeeze_file env stepSize cf af sf (fs, tf, ob) = (None, fs', tf', ob') \<longrightarrow>
      (\<exists>out. segs fs' (FilePath cf @ ''.squeezed'') = Some out
         \<and> list_all2 (\<lambda>kv kv'. fst kv' = fst kv \<and>
               (if fst kv = Some (keyCommitmentState env) then snd kv' = snd kv
                else vt env af sf (snd kv) (startTxNum af) (endTxNum af) = Inr (snd kv')))
             (filter (\<lambda>kv. fst kv \<noteq> None) (words cf)) out
         \<and> (\<forall>n. n < 2 * length out \<longrightarrow>
               AddWord_err fs (FilePath cf @ ''.squeezed.tmp'') n = None)))
   \<and> (\<forall>err fs1 tf ob.
        squeeze_all env stepSize accountFiles storageFiles commitFiles (fs, [], [])
          = (Some err, fs1, tf, ob) \<longrightarrow>
        SqueezeCommitmentFiles env True stepSize accountFiles storageFiles commitFiles fs
          = (Some err, fs1)
        \<and> (\<forall>p. (\<forall>cf \<in> set commitFiles. p \<noteq> FilePath cf @ ''.squeezed''
                    \<and> p \<noteq> FilePath cf @ ''.squeezed.tmp'') \<longrightarrow> segs fs1 p = segs fs p))
   \<and> (\<forall>cf af sf kb v e.
        cf \<in> set commitFiles \<and> find (same_range cf) accountFiles = Some af
        \<and> find (same_range cf) storageFiles = Some sf
        \<and> (Some kb, v) \<in> set (words cf) \<and> kb \<noteq> keyCommitmentState env
        \<and> vt env af sf v (startTxNum af) (endTxNum af) = Inl e \<longrightarrow>
        (\<exists>err fs1.
           SqueezeCommitmentFiles env True stepSize accountFiles storageFiles commitFiles fs
             = (Some err, fs1)
           \<and> (\<forall>p. (\<forall>cf \<in> set commitFiles. p \<noteq> FilePath cf @ ''.squeezed''
                       \<and> p \<noteq> FilePath cf @ ''.squeezed.tmp'') \<longrightarrow> segs fs1 p = segs fs p)))"
proof -
  have one: "\<exists>out. segs fs' (FilePath cf @ ''.squeezed'') = Some out
         \<and> list_all2 (\<lambda>kv kv'. fst kv' = fst kv \<and>
               (if fst kv = Some (keyCommitmentState env) then snd kv' = snd kv
                else vt env af sf (snd kv) (startTxNum af) (endTxNum af) = Inr (snd kv')))
             (filter (\<lambda>kv. fst kv \<noteq> None) (words cf)) out
         \<and> (\<forall>n. n < 2 * length out \<longrightarrow>
               AddWord_err fs (FilePath cf @ ''.squeezed.tmp'') n = None)"
    if ok: "squeeze_file env stepSize cf af sf (fs, tf, ob) = (None, fs', tf', ob')"
    for cf af sf tf ob fs' tf' ob'
  proof -
    from squeeze_file_ok [OF ok] obtain out where
      seg: "segs fs' (FilePath cf @ sqExt) = Some out"
      and w: "squeeze_words env fs (FilePath cf @ sqExt @ ''.tmp'') af sf (words cf) [] = Inr out"
      by blast
    from squeeze_words_written [OF w]
    have rel: "list_all2 (squeezed_pair env af sf) (filter (\<lambda>kv. fst kv \<noteq> None) (words cf)) out"
      and wr: "\<forall>n. n < 2 * length out \<longrightarrow> AddWord_err fs (FilePath cf @ sqExt @ ''.tmp'') n = None"
      by auto
    from rel have rel': "list_all2 (\<lambda>kv kv'. fst kv' = fst kv \<and>
               (if fst kv = Some (keyCommitmentState env) then snd kv' = snd kv
                else vt env af sf (snd kv) (startTxNum af) (endTxNum af) = Inr (snd kv')))
             (filter (\<lambda>kv. fst kv \<noteq> None) (words cf)) out"
      unfolding squeezed_pair_def [abs_def] .
    from seg have seg': "segs fs' (FilePath cf @ ''.squeezed'') = Some out"
      by (simp add: sqExt_def)
    from wr have wr': "\<forall>n. n < 2 * length out \<longrightarrow>
               AddWord_err fs (FilePath cf @ ''.squeezed.tmp'') n = None"
      by (simp add: sqExt_def)
    from seg' rel' wr' show ?thesis by (intro exI [of _ out] conjI)
  qed
  have two: "SqueezeCommitmentFiles env True stepSize accountFiles storageFiles commitFiles fs
          = (Some err, fs1)
        \<and> (\<forall>p. (\<forall>cf \<in> set commitFiles. p \<noteq> FilePath cf @ ''.squeezed''
                    \<and> p \<noteq> FilePath cf @ ''.squeezed.tmp'') \<longrightarrow> segs fs1 p = segs fs p)"
    if bad: "squeeze_all env stepSize accountFiles storageFiles commitFiles (fs, [], [])
          = (Some err, fs1, tf, ob)" for err fs1 tf ob
  proof
    show "SqueezeCommitmentFiles env True stepSize accountFiles storageFiles commitFiles fs
          = (Some err, fs1)"
      using bad by (simp add: SqueezeCommitmentFiles_def)
    show "\<forall>p. (\<forall>cf \<in> set commitFiles. p \<noteq> FilePath cf @ ''.squeezed''
                    \<and> p \<noteq> FilePath cf @ ''.squeezed.tmp'') \<longrightarrow> segs fs1 p = segs fs p"
    proof (intro allI impI)
      fix p
      assume "\<forall>cf \<in> set commitFiles. p \<noteq> FilePath cf @ ''.squeezed''
                    \<and> p \<noteq> FilePath cf @ ''.squeezed.tmp''"
      then have "\<forall>cf \<in> set commitFiles. p \<noteq> FilePath cf @ sqExt
                    \<and> p \<noteq> FilePath cf @ sqExt @ ''.tmp''"
        by (simp add: sqExt_def)
      from squeeze_all_frame [OF bad this] show "segs fs1 p = segs fs p" .
    qed
  qed
  have three: "\<exists>err fs1.
           SqueezeCommitmentFiles env True stepSize accountFiles storageFiles commitFiles fs
             = (Some err, fs1)
           \<and> (\<forall>p. (\<forall>cf \<in> set commitFiles. p \<noteq> FilePath cf @ ''.squeezed''
                       \<and> p \<noteq> FilePath cf @ ''.squeezed.tmp'') \<longrightarrow> segs fs1 p = segs fs p)"
    if h: "cf \<in> set commitFiles \<and> find (same_range cf) accountFiles = Some af
        \<and> find (same_range cf) storageFiles = Some sf
        \<and> (Some kb, v) \<in> set (words cf) \<and> kb \<noteq> keyCommitmentState env
        \<and> vt env af sf v (startTxNum af) (endTxNum af) = Inl e" for cf af sf kb v e
  proof -
    obtain r fs1 tf ob where
      run: "squeeze_all env stepSize accountFiles storageFiles commitFiles (fs, [], [])
              = (r, fs1, tf, ob)"
      by (metis surj_pair)
    have "r \<noteq> None"
    proof
      assume "r = None"
      with run squeeze_all_ok_files [of env stepSize accountFiles storageFiles commitFiles
          "(fs, [], [])" "(fs1, tf, ob)" cf af sf] h
      obtain st0 st1 where "squeeze_file env stepSize cf af sf st0 = (None, st1)" by blast
      then obtain fs0 tf0 ob0 where
        "squeeze_file env stepSize cf af sf (fs0, tf0, ob0) = (None, st1)"
        by (metis surj_pair)
      from squeeze_file_ok_words [OF this] obtain out where
        "squeeze_words env fs0 (FilePath cf @ sqExt @ ''.tmp'') af sf (words cf) [] = Inr out"
        by blast
      with squeeze_words_transform_fails [of kb v "words cf" env af sf e fs0
          "FilePath cf @ sqExt @ ''.tmp''" "[]"] h
      show False by auto
    qed
    then obtain err where "r = Some err" by blast
    with run have "squeeze_all env stepSize accountFiles storageFiles commitFiles (fs, [], [])
              = (Some err, fs1, tf, ob)" by simp
    from two [OF this] show ?thesis by (intro exI [of _ err] exI [of _ fs1])
  qed
  show ?thesis
  proof (rule conjI [OF _ conjI])
    show "\<forall>cf af sf tf ob fs' tf' ob'.
      squeeze_file env stepSize cf af sf (fs, tf, ob) = (None, fs', tf', ob') \<longrightarrow>
      (\<exists>out. segs fs' (FilePath cf @ ''.squeezed'') = Some out
         \<and> list_all2 (\<lambda>kv kv'. fst kv' = fst kv \<and>
               (if fst kv = Some (keyCommitmentState env) then snd kv' = snd kv
                else vt env af sf (snd kv) (startTxNum af) (endTxNum af) = Inr (snd kv')))
             (filter (\<lambda>kv. fst kv \<noteq> None) (words cf)) out
         \<and> (\<forall>n. n < 2 * length out \<longrightarrow>
               AddWord_err fs (FilePath cf @ ''.squeezed.tmp'') n = None))"
      using one by (intro allI impI)
    show "\<forall>err fs1 tf ob.
        squeeze_all env stepSize accountFiles storageFiles commitFiles (fs, [], [])
          = (Some err, fs1, tf, ob) \<longrightarrow>
        SqueezeCommitmentFiles env True stepSize accountFiles storageFiles commitFiles fs
          = (Some err, fs1)
        \<and> (\<forall>p. (\<forall>cf \<in> set commitFiles. p \<noteq> FilePath cf @ ''.squeezed''
                    \<and> p \<noteq> FilePath cf @ ''.squeezed.tmp'') \<longrightarrow> segs fs1 p = segs fs p)"
      using two by (intro allI impI)
    show "\<forall>cf af sf kb v e.
        cf \<in> set commitFiles \<and> find (same_range cf) accountFiles = Some af
        \<and> find (same_range cf) storageFiles = Some sf
        \<and> (Some kb, v) \<in> set (words cf) \<and> kb \<noteq> keyCommitmentState env
        \<and> vt env af sf v (startTxNum af) (endTxNum af) = Inl e \<longrightarrow>
        (\<exists>err fs1.
           SqueezeCommitmentFiles env True stepSize accountFiles storageFiles commitFiles fs
             = (Some err, fs1)
           \<and> (\<forall>p. (\<forall>cf \<in> set commitFiles. p \<noteq> FilePath cf @ ''.squeezed''
                       \<and> p \<noteq> FilePath cf @ ''.squeezed.tmp'') \<longrightarrow> segs fs1 p = segs fs p))"
      using three by (intro allI impI)
  qed
qed

text \<open>
  An example directory.  The transformer reverses a value and fails on an empty one; the
  sentinel is the key \<open>state\<close>.  The commitment file \<open>/d/c.kv\<close> of steps 0-1 holds a pair with
  a \<^verbatim>\<open>nil\<close> key, the sentinel's pair and one ordinary pair; its \<open>.bt\<close> index exists.
\<close>

definition env0 :: squeeze_env where
  "env0 = \<lparr> vt = (\<lambda>af sf v txFrom txTo.
                     case v of None \<Rightarrow> Inl (Ext ''no value'')
                     | Some b \<Rightarrow> if b = [] then Inl (Ext ''empty value'') else Inr (Some (rev b))),
            kvBtFilePath = (\<lambda>fromStep toStep. ''/d/c.bt''),
            kvAccessorFilePath = (\<lambda>fromStep toStep. ''/d/c.kvi''),
            kvExistenceIdxFilePath = (\<lambda>fromStep toStep. ''/d/c.kvei''),
            keyCommitmentState = [115, 116, 97, 116, 101] \<rparr>"

definition item0 :: "string \<Rightarrow> (slice \<times> slice) list \<Rightarrow> filesItem" where
  "item0 name ws = \<lparr> startTxNum = 0, endTxNum = 100, FilePath = ''/d/'' @ name, FileName = name,
                     words = ws \<rparr>"

definition words0 :: "(slice \<times> slice) list" where
  "words0 = [(None, Some [9]), (Some [115, 116, 97, 116, 101], Some [7, 8]),
             (Some [2], Some [3, 4])]"

definition segfs0 :: "(slice \<times> slice) list \<Rightarrow> seg_fs" where
  "segfs0 ws = \<lparr> segs = [''/d/c.kv'' \<mapsto> ws, ''/d/c.bt'' \<mapsto> []],
                 NewCompressor_err = (\<lambda>p. None), AddWord_err = (\<lambda>p n. None),
                 Compress_err = (\<lambda>p. None), segRename_err = (\<lambda>old new. None),
                 Stat_err = (\<lambda>p. None), Remove_err = (\<lambda>p. None) \<rparr>"

lemmas squeeze_example_defs =
  squeeze_file_def Let_def sqExt_def item0_def words0_def env0_def segfs0_def seg_Rename_def
  os_Stat_def os_Remove_def same_range_def SqueezeCommitmentFiles_def TrimSuffix_def
  ErrNotExist_def

lemma squeeze_file0:
  "fst (squeeze_file env0 100 (item0 ''c.kv'' words0) (item0 ''a.kv'' []) (item0 ''s.kv'' [])
     (segfs0 words0, [], [])) = None
   \<and> segs (fst (snd (squeeze_file env0 100 (item0 ''c.kv'' words0) (item0 ''a.kv'' [])
        (item0 ''s.kv'' []) (segfs0 words0, [], [])))) ''/d/c.kv.squeezed''
      = Some [(Some [115, 116, 97, 116, 101], Some [7, 8]), (Some [2], Some [4, 3])]"
  by (simp add: squeeze_example_defs)

lemma squeeze_run0:
  "fst (SqueezeCommitmentFiles env0 True 100 [item0 ''a.kv'' []] [item0 ''s.kv'' []]
          [item0 ''c.kv'' words0] (segfs0 words0)) = None
   \<and> segs (snd (SqueezeCommitmentFiles env0 True 100 [item0 ''a.kv'' []] [item0 ''s.kv'' []]
          [item0 ''c.kv'' words0] (segfs0 words0))) ''/d/c.kv''
      = Some [(Some [115, 116, 97, 116, 101], Some [7, 8]), (Some [2], Some [4, 3])]
   \<and> segs (snd (SqueezeCommitmentFiles env0 True 100 [item0 ''a.kv'' []] [item0 ''s.kv'' []]
          [item0 ''c.kv'' words0] (segfs0 words0))) ''/d/c.bt'' = None"
  by (simp add: squeeze_example_defs)

text \<open>
  The closure on \<open>/d/c.kv\<close> writes the sentinel's pair unchanged and the ordinary pair with
  its value reversed.  With a file on whose only pair the transformer fails, the function
  returns an error and the original file and its index are still there.
\<close>

theorem SqueezeCommitmentFiles_spec_witness:
  "segs (fst (snd (squeeze_file env0 100 (item0 ''c.kv'' words0) (item0 ''a.kv'' [])
        (item0 ''s.kv'' []) (segfs0 words0, [], [])))) ''/d/c.kv.squeezed''
      = Some [(Some [115, 116, 97, 116, 101], Some [7, 8]), (Some [2], Some [4, 3])]
   \<and> (\<exists>out. segs (fst (snd (squeeze_file env0 100 (item0 ''c.kv'' words0) (item0 ''a.kv'' [])
              (item0 ''s.kv'' []) (segfs0 words0, [], [])))) ''/d/c.kv.squeezed'' = Some out
         \<and> length out = 2)
   \<and> (\<exists>err fs1.
         SqueezeCommitmentFiles env0 True 100 [item0 ''a.kv'' []] [item0 ''s.kv'' []]
           [item0 ''c.kv'' [(Some [2], Some [])]] (segfs0 [(Some [2], Some [])]) = (Some err, fs1)
         \<and> segs fs1 ''/d/c.kv'' = Some [(Some [2], Some [])]
         \<and> segs fs1 ''/d/c.bt'' = Some [])"
proof -
  let ?a = "item0 ''a.kv'' []" and ?s = "item0 ''s.kv'' []"
  let ?c = "item0 ''c.kv'' words0" and ?bad = "item0 ''c.kv'' [(Some [2], Some [])]"
  let ?fs = "segfs0 words0" and ?fsb = "segfs0 [(Some [2], Some [])]"
  obtain r fs' tf' ob' where sq: "squeeze_file env0 100 ?c ?a ?s (?fs, [], []) = (r, fs', tf', ob')"
    by (metis surj_pair)
  with squeeze_file0 have r: "r = None"
    and out: "segs fs' ''/d/c.kv.squeezed''
      = Some [(Some [115, 116, 97, 116, 101], Some [7, 8]), (Some [2], Some [4, 3])]"
    by simp_all
  note one = SqueezeCommitmentFiles_spec [where env = env0 and stepSize = 100 and fs = ?fs
      and accountFiles = "[?a]" and storageFiles = "[?s]" and commitFiles = "[?c]",
      THEN conjunct1, THEN spec, THEN spec, THEN spec, THEN spec, THEN spec, THEN spec,
      THEN spec, THEN spec, THEN mp, OF sq [unfolded r]]
  from one out have len: "\<exists>out. segs fs' ''/d/c.kv.squeezed'' = Some out \<and> length out = 2"
    by auto
  have pre: "?bad \<in> set [?bad] \<and> find (same_range ?bad) [?a] = Some ?a
        \<and> find (same_range ?bad) [?s] = Some ?s
        \<and> (Some [2], Some []) \<in> set (words ?bad) \<and> [2] \<noteq> keyCommitmentState env0
        \<and> vt env0 ?a ?s (Some []) (startTxNum ?a) (endTxNum ?a) = Inl (Ext ''empty value'')"
    by (simp add: item0_def same_range_def env0_def)
  note three = SqueezeCommitmentFiles_spec [where env = env0 and stepSize = 100 and fs = ?fsb
      and accountFiles = "[?a]" and storageFiles = "[?s]" and commitFiles = "[?bad]",
      THEN conjunct2, THEN conjunct2, THEN spec, THEN spec, THEN spec, THEN spec, THEN spec,
      THEN spec, THEN mp, OF pre]
  then obtain err fs1 where
    run: "SqueezeCommitmentFiles env0 True 100 [?a] [?s] [?bad] ?fsb = (Some err, fs1)"
    and frame: "\<forall>p. (\<forall>cf \<in> set [?bad]. p \<noteq> FilePath cf @ ''.squeezed''
                  \<and> p \<noteq> FilePath cf @ ''.squeezed.tmp'') \<longrightarrow> segs fs1 p = segs ?fsb p"
    by blast
  from frame have "segs fs1 ''/d/c.kv'' = segs ?fsb ''/d/c.kv''"
    and "segs fs1 ''/d/c.bt'' = segs ?fsb ''/d/c.bt''"
    by (simp_all add: item0_def)
  then have kept: "segs fs1 ''/d/c.kv'' = Some [(Some [2], Some [])]" "segs fs1 ''/d/c.bt'' = Some []"
    by (simp_all add: segfs0_def)
  from sq out len run kept show ?thesis by auto
qed

text \<open>
  Claim C5 as stated fails where it says that every pair is transformed or, for the
  sentinel, copied: the pair of \<open>/d/c.kv\<close> with the \<^verbatim>\<open>nil\<close> key is neither.  The run succeeds
  and the rewritten file holds two pairs, the original held three.
\<close>

theorem SqueezeCommitmentFiles_nil_key_counterexample:
  "fst (SqueezeCommitmentFiles env0 True 100 [item0 ''a.kv'' []] [item0 ''s.kv'' []]
          [item0 ''c.kv'' words0] (segfs0 words0)) = None
   \<and> segs (snd (SqueezeCommitmentFiles env0 True 100 [item0 ''a.kv'' []] [item0 ''s.kv'' []]
          [item0 ''c.kv'' words0] (segfs0 words0))) ''/d/c.kv''
      = Some [(Some [115, 116, 97, 116, 101], Some [7, 8]), (Some [2], Some [4, 3])]
   \<and> words (item0 ''c.kv'' words0)
      = [(None, Some [9]), (Some [115, 116, 97, 116, 101], Some [7, 8]), (Some [2], Some [3, 4])]"
  using squeeze_run0 by (simp add: item0_def words0_def)

subsection \<open>Building the files of a step\<close>



























subsection \<open>The commitment barrier of a merge pass\<close>




lemma idx_lt4: "idx kid < 4"
  by (cases kid) simp_all
































end
